theory Spec2Isabelle
  imports Main "HOL-Library.Sublist" "HOL-Library.Char_ord" "HOL-Library.List_Lexorder"
begin

section \<open>Data model\<close>

text \<open>
  The analyzer works on the decoded output of the tagging API: a list of resources, each a
  dictionary with a \<^verbatim>\<open>ResourceARN\<close> string and a \<^verbatim>\<open>Tags\<close> list of
  \<^verbatim>\<open>{Key, Value}\<close> dictionaries. The \<^verbatim>\<open>Tags\<close> entry may be missing from a
  resource dictionary (\<^verbatim>\<open>resource.get("Tags", [])\<close> in the projector and in the
  summaries, \<^verbatim>\<open>resource['Tags']\<close> in the filter), so it is optional here.
\<close>

record tag =
  Key :: string
  Value :: string

record resource =
  ResourceARN :: string
  Tags :: "tag list option"

text \<open>The filter document: four lists, each defaulting to the empty list.\<close>

record filters =
  include_keys :: "string list"
  exclude_keys :: "string list"
  include_values :: "string list"
  exclude_values :: "string list"

text \<open>The exceptions of the Python code that the modelled functions can raise.\<close>

datatype py_error =
  KeyError | IndexError | TypeError | RuntimeError | JSONDecodeError | AttributeError | OSError
  | UnicodeDecodeError

text \<open>\<^verbatim>\<open>resource.get("Tags", [])\<close>\<close>

definition get_tags :: "resource \<Rightarrow> tag list" where
  "get_tags r = (case Tags r of None \<Rightarrow> [] | Some ts \<Rightarrow> ts)"

section \<open>Tag filter\<close>

text \<open>
  The inner function \<^verbatim>\<open>tag_matches\<close> of \<^verbatim>\<open>filter_tags\<close>: four guards in the
  order of the source; a list is truthy when it is not empty.
\<close>

definition tag_matches :: "filters \<Rightarrow> tag \<Rightarrow> bool" where
  "tag_matches f t =
     (let key = Key t; value = Value t in
      if include_keys f \<noteq> [] \<and> key \<notin> set (include_keys f) then False
      else if exclude_keys f \<noteq> [] \<and> key \<in> set (exclude_keys f) then False
      else if include_values f \<noteq> [] \<and> value \<notin> set (include_values f) then False
      else if exclude_values f \<noteq> [] \<and> value \<in> set (exclude_values f) then False
      else True)"

text \<open>
  The loop of \<^verbatim>\<open>filter_tags\<close> over the resources, with the list
  \<^verbatim>\<open>filtered_tags\<close> as accumulator. \<^verbatim>\<open>resource['Tags']\<close> raises
  \<^verbatim>\<open>KeyError\<close> on a resource without that entry.
\<close>

fun filter_loop :: "filters \<Rightarrow> resource list \<Rightarrow> resource list \<Rightarrow> py_error + resource list" where
  "filter_loop f filtered_tags [] = Inr filtered_tags"
| "filter_loop f filtered_tags (r # rs) =
     (case Tags r of
        None \<Rightarrow> Inl KeyError
      | Some ts \<Rightarrow>
          (let filtered_resource_tags = filter (tag_matches f) ts in
           if filtered_resource_tags \<noteq> []
           then filter_loop f (filtered_tags @ [r\<lparr>Tags := Some filtered_resource_tags\<rparr>]) rs
           else filter_loop f filtered_tags rs))"

definition filter_tags :: "resource list \<Rightarrow> filters \<Rightarrow> py_error + resource list" where
  "filter_tags tags f = filter_loop f [] tags"

section \<open>Focus test of the coverage summary\<close>

text \<open>
  The test of \<^verbatim>\<open>generate_focused_summary_csv\<close> on one tag; the four lists of the
  filter document are turned into sets there, which leaves membership as it is.
\<close>

definition focus_match :: "filters \<Rightarrow> tag \<Rightarrow> bool" where
  "focus_match f t =
     (let key = Key t; value = Value t in
      (key \<in> set (include_keys f) \<or> value \<in> set (include_values f)) \<and>
      (key \<notin> set (exclude_keys f) \<and> value \<notin> set (exclude_values f)))"

text \<open>The inner loop over the tags of one resource, left by \<^verbatim>\<open>break\<close> at the first hit.\<close>

fun has_focused_tag :: "filters \<Rightarrow> tag list \<Rightarrow> bool" where
  "has_focused_tag f [] = False"
| "has_focused_tag f (t # ts) = (if focus_match f t then True else has_focused_tag f ts)"

text \<open>The loop over the resources of one environment, with the two counters as state.\<close>

fun count_loop :: "filters \<Rightarrow> nat \<times> nat \<Rightarrow> resource list \<Rightarrow> nat \<times> nat" where
  "count_loop f (focused_resources, missing_resources) [] = (focused_resources, missing_resources)"
| "count_loop f (focused_resources, missing_resources) (r # rs) =
     (if has_focused_tag f (get_tags r)
      then count_loop f (focused_resources + 1, missing_resources) rs
      else count_loop f (focused_resources, missing_resources + 1) rs)"

section \<open>Matrix projector\<close>

text \<open>\<^verbatim>\<open>s.split(c)\<close> for a separator of one character: the segments between its occurrences.\<close>

fun split_on :: "char \<Rightarrow> string \<Rightarrow> string list" where
  "split_on c [] = [[]]"
| "split_on c (x # xs) =
     (if x = c then [] # split_on c xs
      else (case split_on c xs of [] \<Rightarrow> [[x]] | w # ws \<Rightarrow> (x # w) # ws))"

text \<open>\<^verbatim>\<open>xs[i]\<close> for an index that is not negative.\<close>

definition index :: "'a list \<Rightarrow> nat \<Rightarrow> py_error + 'a" where
  "index xs i = (if i < length xs then Inr (xs ! i) else Inl IndexError)"

text \<open>\<^verbatim>\<open>d.get(k, default)\<close> and \<^verbatim>\<open>d[k]\<close> on a dictionary.\<close>

definition dict_get :: "('k \<rightharpoonup> 'v) \<Rightarrow> 'k \<Rightarrow> 'v \<Rightarrow> 'v" where
  "dict_get d k dflt = (case d k of None \<Rightarrow> dflt | Some v \<Rightarrow> v)"

definition dict_item :: "('k \<rightharpoonup> 'v) \<Rightarrow> 'k \<Rightarrow> py_error + 'v" where
  "dict_item d k = (case d k of None \<Rightarrow> Inl KeyError | Some v \<Rightarrow> Inr v)"

text \<open>The list comprehension \<^verbatim>\<open>[d[k] for k in ks]\<close>, which stops at the first missing key.\<close>

fun dict_items :: "('k \<rightharpoonup> 'v) \<Rightarrow> 'k list \<Rightarrow> py_error + 'v list" where
  "dict_items d [] = Inr []"
| "dict_items d (k # ks) =
     (case dict_item d k of
        Inl e \<Rightarrow> Inl e
      | Inr v \<Rightarrow> (case dict_items d ks of Inl e \<Rightarrow> Inl e | Inr vs \<Rightarrow> Inr (v # vs)))"

text \<open>
  The first two loops of \<^verbatim>\<open>json_to_csv\<close> collect the tag keys of all resources in
  the set \<^verbatim>\<open>all_tags\<close>; \<^verbatim>\<open>sorted(list(all_tags))\<close> orders them as Python
  orders strings, character by character, a proper prefix first.
\<close>

definition all_tags :: "resource list \<Rightarrow> string set" where
  "all_tags json_data =
     fold (\<lambda>resource acc. fold (\<lambda>tag acc. insert (Key tag) acc) (get_tags resource) acc)
       json_data {}"

definition sorted_tags :: "resource list \<Rightarrow> string list" where
  "sorted_tags json_data = sorted_list_of_set (all_tags json_data)"

text \<open>
  \<^verbatim>\<open>if focus_key:\<close> is taken for a string that is given and not empty.
\<close>

datatype mode = Full | Focused string

definition mode_of :: "string option \<Rightarrow> mode" where
  "mode_of focus_key =
     (case focus_key of None \<Rightarrow> Full | Some k \<Rightarrow> if k = [] then Full else Focused k)"

definition csv_header :: "mode \<Rightarrow> string list \<Rightarrow> string list" where
  "csv_header m tags =
     (case m of
        Focused focus_key \<Rightarrow> [''Resource ARN'', ''Resource Type'', focus_key]
      | Full \<Rightarrow> [''Resource ARN'', ''Resource Type''] @ tags)"

text \<open>
  The dictionary \<^verbatim>\<open>tag_values\<close> of one resource: \<^verbatim>\<open>'N/A'\<close> for every column,
  then one assignment for each tag of the resource, in the order of its tag list.
\<close>

definition assign :: "tag \<Rightarrow> (string \<rightharpoonup> string) \<Rightarrow> (string \<rightharpoonup> string)" where
  "assign tag d = (if d (Key tag) \<noteq> None then d(Key tag \<mapsto> Value tag) else d)"

definition tag_values :: "string list \<Rightarrow> resource \<Rightarrow> (string \<rightharpoonup> string)" where
  "tag_values tags resource =
     fold assign (get_tags resource) (map_of (map (\<lambda>tag. (tag, ''N/A'')) tags))"

text \<open>
  The body of the loop over the resources: \<open>Inr None\<close> is \<^verbatim>\<open>continue\<close>,
  \<open>Inr (Some row)\<close> the row appended to \<^verbatim>\<open>csv_rows\<close>. The type is the third
  segment of the ARN, and \<^verbatim>\<open>[2]\<close> raises on a shorter list; \<^verbatim>\<open>in exclude_values\<close>
  raises when \<^verbatim>\<open>exclude_values\<close> is left at its default \<^verbatim>\<open>None\<close>.
\<close>

definition project_row ::
  "string list \<Rightarrow> mode \<Rightarrow> string list option \<Rightarrow> resource \<Rightarrow> py_error + string list option" where
  "project_row tags m excl resource =
     (let resource_arn = ResourceARN resource in
      case index (split_on CHR '':'' resource_arn) 2 of
        Inl e \<Rightarrow> Inl e
      | Inr resource_type \<Rightarrow>
          (let row = [resource_arn, resource_type];
               d = tag_values tags resource in
           case m of
             Focused focus_key \<Rightarrow>
               (case excl of
                  None \<Rightarrow> Inl TypeError
                | Some ev \<Rightarrow>
                    if dict_get d focus_key ''N/A'' \<in> set ev then Inr None
                    else Inr (Some (row @ [dict_get d focus_key ''N/A''])))
           | Full \<Rightarrow>
               (case dict_items d tags of
                  Inl e \<Rightarrow> Inl e
                | Inr vs \<Rightarrow> Inr (Some (row @ vs)))))"

fun rows_loop ::
  "string list \<Rightarrow> mode \<Rightarrow> string list option \<Rightarrow> string list list \<Rightarrow> resource list
    \<Rightarrow> py_error + string list list" where
  "rows_loop tags m excl csv_rows [] = Inr csv_rows"
| "rows_loop tags m excl csv_rows (resource # rest) =
     (case project_row tags m excl resource of
        Inl e \<Rightarrow> Inl e
      | Inr None \<Rightarrow> rows_loop tags m excl csv_rows rest
      | Inr (Some row) \<Rightarrow> rows_loop tags m excl (csv_rows @ [row]) rest)"

text \<open>
  \<^verbatim>\<open>json_to_csv\<close> up to the header and the rows it hands to the CSV writer.
\<close>

definition json_to_csv ::
  "resource list \<Rightarrow> string option \<Rightarrow> string list option
    \<Rightarrow> py_error + (string list \<times> string list list)" where
  "json_to_csv json_data focus_key excl =
     (let tags = sorted_tags json_data;
          m = mode_of focus_key;
          header = csv_header m tags
      in case rows_loop tags m excl [] json_data of
           Inl e \<Rightarrow> Inl e
         | Inr csv_rows \<Rightarrow> Inr (header, csv_rows))"

section \<open>Paginated fetch\<close>

text \<open>
  \<^verbatim>\<open>fetch_resource_tags\<close> runs the AWS CLI in a loop and reads, of each run, the
  return code and, when that is 0, the value that \<^verbatim>\<open>json.loads\<close> makes of the output.
  The values of JSON as Python holds them: \<open>JFloat nz\<close> is a number read as a float, of
  which only the truth value is kept (\<open>nz\<close>: it is not zero); an object is the list of
  the items of its dictionary, every key once. Errors of the interpreter itself (memory,
  recursion depth, an interrupt) are not part of the model.
\<close>

datatype json =
  JNull | JBool bool | JInt int | JFloat bool | JString string
  | JArray "json list" | JObject "(string \<times> json) list"

text \<open>The truth value of a value, as \<^verbatim>\<open>if not next_token:\<close> takes it.\<close>

fun py_truthy :: "json \<Rightarrow> bool" where
  "py_truthy JNull = False"
| "py_truthy (JBool b) = b"
| "py_truthy (JInt n) = (n \<noteq> 0)"
| "py_truthy (JFloat nz) = nz"
| "py_truthy (JString s) = (s \<noteq> [])"
| "py_truthy (JArray xs) = (xs \<noteq> [])"
| "py_truthy (JObject kvs) = (kvs \<noteq> [])"

text \<open>
  What \<^verbatim>\<open>resources.extend(v)\<close> appends: the elements of a list, the characters of a
  string (each a string of its own), the keys of a dictionary; \<open>None\<close> for a value that cannot be iterated, on
  which \<^verbatim>\<open>extend\<close> raises \<^verbatim>\<open>TypeError\<close>.
\<close>

fun py_iter :: "json \<Rightarrow> json list option" where
  "py_iter (JArray xs) = Some xs"
| "py_iter (JString s) = Some (map (\<lambda>c. JString [c]) s)"
| "py_iter (JObject kvs) = Some (map (\<lambda>kv. JString (fst kv)) kvs)"
| "py_iter JNull = None"
| "py_iter (JBool b) = None"
| "py_iter (JInt n) = None"
| "py_iter (JFloat nz) = None"

text \<open>
  A page as the loop reads it from a JSON object: under \<^verbatim>\<open>ResourceTagMappingList\<close> the
  items that \<^verbatim>\<open>extend\<close> appends (\<open>None\<close> when the object has no such entry, where
  \<^verbatim>\<open>get\<close> gives the empty list), and under \<^verbatim>\<open>PaginationToken\<close> a string
  (\<open>None\<close> when the object has no such entry or has \<^verbatim>\<open>null\<close> there, where
  \<^verbatim>\<open>get\<close> gives \<^verbatim>\<open>None\<close>). The loop does not look into the items, so their
  type is left open.
\<close>

record 'a response =
  ResourceTagMappingList :: "'a list option"
  PaginationToken :: "string option"

text \<open>
  What the loop sees of one call:
  \<^item> \<open>NotStarted\<close>: \<^verbatim>\<open>subprocess.run\<close> raises \<^verbatim>\<open>OSError\<close>, the program cannot be
    started;
  \<^item> \<open>NotText\<close>: \<^verbatim>\<open>subprocess.run\<close> raises \<^verbatim>\<open>UnicodeDecodeError\<close>, the output is not
    text;
  \<^item> \<open>Failed\<close>: the return code is not 0;
  \<^item> \<open>Unparseable\<close>: the return code is 0 and \<^verbatim>\<open>json.loads\<close> raises
    \<^verbatim>\<open>JSONDecodeError\<close>;
  \<^item> \<open>NotObject\<close>: the output parses to a value that is not an object, which has no
    method \<^verbatim>\<open>get\<close>;
  \<^item> \<open>NotIterable\<close>: it parses to an object whose \<^verbatim>\<open>ResourceTagMappingList\<close> cannot
    be iterated;
  \<^item> \<open>Parsed r\<close>: it parses to an object that gives the page \<open>r\<close>;
  \<^item> \<open>OddToken items t\<close>: it parses to an object that gives the items \<open>items\<close> and
    whose \<^verbatim>\<open>PaginationToken\<close> is neither \<^verbatim>\<open>null\<close> nor a string, with the truth
    value \<open>t\<close>.
\<close>

datatype 'a call_result =
  NotStarted | NotText | Failed | Unparseable | NotObject | NotIterable
  | Parsed "'a response" | OddToken "'a list" bool

text \<open>
  The call result of a run with return code 0 whose output parses to the value \<open>j\<close>:
  \<^verbatim>\<open>response.get("ResourceTagMappingList", [])\<close> is read and iterated first, then
  \<^verbatim>\<open>response.get("PaginationToken")\<close>.
\<close>

definition of_body :: "json \<Rightarrow> json call_result" where
  "of_body j =
     (case j of
        JObject kvs \<Rightarrow>
          (case (case map_of kvs ''ResourceTagMappingList'' of None \<Rightarrow> Some [] | Some v \<Rightarrow> py_iter v) of
             None \<Rightarrow> NotIterable
           | Some items \<Rightarrow>
               (case map_of kvs ''PaginationToken'' of
                  None \<Rightarrow>
                    Parsed \<lparr>ResourceTagMappingList =
                              map_option (\<lambda>_. items) (map_of kvs ''ResourceTagMappingList''),
                            PaginationToken = None\<rparr>
                | Some JNull \<Rightarrow>
                    Parsed \<lparr>ResourceTagMappingList =
                              map_option (\<lambda>_. items) (map_of kvs ''ResourceTagMappingList''),
                            PaginationToken = None\<rparr>
                | Some (JString t) \<Rightarrow>
                    Parsed \<lparr>ResourceTagMappingList =
                              map_option (\<lambda>_. items) (map_of kvs ''ResourceTagMappingList''),
                            PaginationToken = Some t\<rparr>
                | Some v \<Rightarrow> OddToken items (py_truthy v)))
      | _ \<Rightarrow> NotObject)"

text \<open>The three local variables of the function.\<close>

record 'a fetch_state =
  resources :: "'a list"
  next_token :: "string option"
  retries :: int

text \<open>\<^verbatim>\<open>if next_token:\<close> holds for a token that is given and is not the empty string.\<close>

definition truthy :: "string option \<Rightarrow> bool" where
  "truthy t = (case t of None \<Rightarrow> False | Some s \<Rightarrow> s \<noteq> [])"

text \<open>The command line of one call.\<close>

definition command :: "string \<Rightarrow> string option \<Rightarrow> string list" where
  "command region token =
     [''aws'', ''resourcegroupstaggingapi'', ''get-resources'', ''--region'', region,
      ''--output'', ''json'']
     @ (case token of
          None \<Rightarrow> []
        | Some t \<Rightarrow> if t \<noteq> [] then [''--starting-token'', t] else [])"

text \<open>\<^verbatim>\<open>response.get("ResourceTagMappingList", [])\<close>\<close>

definition page_records :: "'a response \<Rightarrow> 'a list" where
  "page_records r = (case ResourceTagMappingList r of None \<Rightarrow> [] | Some l \<Rightarrow> l)"

text \<open>
  One turn of the loop on the result of its call: the loop goes on with a new state
  (\<^verbatim>\<open>continue\<close>, or the end of the body), the function returns (\<^verbatim>\<open>break\<close>), or it
  raises. Only \<^verbatim>\<open>JSONDecodeError\<close> is caught, and raised again. After a token that is
  true and not a string the loop goes on, and the command line that holds the token makes
  \<^verbatim>\<open>subprocess.run\<close> raise \<^verbatim>\<open>TypeError\<close> before another call is made: the turn
  ends in that error.
\<close>

datatype 'a step = Continue "'a fetch_state" | Return "'a list" | Raise py_error

definition fetch_step :: "int \<Rightarrow> 'a fetch_state \<Rightarrow> 'a call_result \<Rightarrow> 'a step" where
  "fetch_step max_retries s result =
     (case result of
        NotStarted \<Rightarrow> Raise OSError
      | NotText \<Rightarrow> Raise UnicodeDecodeError
      | Failed \<Rightarrow>
          (let s' = s\<lparr>retries := retries s + 1\<rparr> in
           if retries s' \<ge> max_retries then Raise RuntimeError else Continue s')
      | Unparseable \<Rightarrow> Raise JSONDecodeError
      | NotObject \<Rightarrow> Raise AttributeError
      | NotIterable \<Rightarrow> Raise TypeError
      | Parsed r \<Rightarrow>
          (let s' = s\<lparr>resources := resources s @ page_records r,
                      next_token := PaginationToken r\<rparr> in
           if \<not> truthy (next_token s') then Return (resources s') else Continue s')
      | OddToken items t \<Rightarrow>
          (let s' = s\<lparr>resources := resources s @ items\<rparr> in
           if \<not> t then Return (resources s') else Raise TypeError))"

text \<open>
  The loop, run against the results of the successive calls. The loop has no bound of its
  own: it ends when a call ends it, and \<open>None\<close> says that it is still running after the
  last result of the list. \<^verbatim>\<open>max_retries\<close> is any integer; it is 3 when the caller
  leaves it out. An exception leaves the function without its local variables: the
  result of a run that raises is the error alone.
\<close>

fun fetch_loop :: "int \<Rightarrow> 'a fetch_state \<Rightarrow> 'a call_result list \<Rightarrow> (py_error + 'a list) option" where
  "fetch_loop max_retries s [] = None"
| "fetch_loop max_retries s (result # rest) =
     (case fetch_step max_retries s result of
        Continue s' \<Rightarrow> fetch_loop max_retries s' rest
      | Return rs \<Rightarrow> Some (Inr rs)
      | Raise e \<Rightarrow> Some (Inl e))"

definition fetch_resource_tags :: "int \<Rightarrow> 'a call_result list \<Rightarrow> (py_error + 'a list) option" where
  "fetch_resource_tags max_retries results =
     fetch_loop max_retries \<lparr>resources = [], next_token = None, retries = 0\<rparr> results"

text \<open>The command lines of the calls whose results the loop has read, in order.\<close>

fun loop_commands :: "string \<Rightarrow> int \<Rightarrow> 'a fetch_state \<Rightarrow> 'a call_result list \<Rightarrow> string list list" where
  "loop_commands region max_retries s [] = []"
| "loop_commands region max_retries s (result # rest) =
     command region (next_token s) #
     (case fetch_step max_retries s result of
        Continue s' \<Rightarrow> loop_commands region max_retries s' rest
      | Return rs \<Rightarrow> []
      | Raise e \<Rightarrow> [])"

definition fetch_commands :: "string \<Rightarrow> int \<Rightarrow> 'a call_result list \<Rightarrow> string list list" where
  "fetch_commands region max_retries results =
     loop_commands region max_retries \<lparr>resources = [], next_token = None, retries = 0\<rparr> results"





section \<open>Cross-environment summaries\<close>

text \<open>
  Both summaries build a dictionary \<^verbatim>\<open>summary_data\<close> from column titles to columns
  (lists of cells) and hand it to the data frame that is written out. A cell is a string,
  a count, a list made from a set of strings (\<^verbatim>\<open>list(set(...))\<close>, whose order Python
  leaves open) or the strings of a set joined by \<^verbatim>\<open>", "\<close> (in an order that Python
  leaves open as well). A dictionary keeps its keys in the order of their first insertion.
  The functions are modelled up to this dictionary; their argument \<^verbatim>\<open>tag_data\<close>, a
  dictionary from environment names to resource lists, is the list of its items.
\<close>

datatype cell = Str string | Num nat | Vals "string set" | Joined "string set"

type_synonym table = "(string \<times> cell list) list"

text \<open>
  \<^verbatim>\<open>d[k] = f(d[k])\<close> on a \<^verbatim>\<open>defaultdict\<close> whose missing entries are \<open>dflt\<close>;
  with a constant \<open>f\<close> this is the assignment \<^verbatim>\<open>d[k] = v\<close> on any dictionary.
\<close>

fun dict_update :: "'k \<Rightarrow> 'v \<Rightarrow> ('v \<Rightarrow> 'v) \<Rightarrow> ('k \<times> 'v) list \<Rightarrow> ('k \<times> 'v) list" where
  "dict_update k dflt f [] = [(k, f dflt)]"
| "dict_update k dflt f ((k', v) # kvs) =
     (if k' = k then (k', f v) # kvs else (k', v) # dict_update k dflt f kvs)"

text \<open>
  \<^verbatim>\<open>summary_data[c].append(v)\<close>, for a title \<open>c\<close> that the dictionary has; the loops
  use no other title than those of the literal that starts the dictionary.
\<close>

definition column_append :: "string \<Rightarrow> cell \<Rightarrow> table \<Rightarrow> table" where
  "column_append c v d = map (\<lambda>(c', vs). if c' = c then (c', vs @ [v]) else (c', vs)) d"

text \<open>\<^verbatim>\<open>summary_data[c]\<close>, read after the loops.\<close>

definition column :: "table \<Rightarrow> string \<Rightarrow> cell list" where
  "column d c = (case map_of d c of None \<Rightarrow> [] | Some vs \<Rightarrow> vs)"

subsection \<open>Presence and value summary\<close>

text \<open>
  The first loop nest of \<^verbatim>\<open>generate_summary_csv\<close>:
  \<^verbatim>\<open>all_tags[tag["Key"]][env].add(tag["Value"])\<close> for every tag of every resource of
  every environment, in a dictionary of dictionaries of sets.
\<close>

definition collect_tags :: "(string \<times> resource list) list \<Rightarrow> (string \<times> (string \<times> string set) list) list" where
  "collect_tags tag_data =
     fold (\<lambda>(env, tags) all_tags.
        fold (\<lambda>resource all_tags.
           fold (\<lambda>tag all_tags.
              dict_update (Key tag) [] (dict_update env {} (insert (Value tag))) all_tags)
             (get_tags resource) all_tags)
          tags all_tags)
       tag_data []"

text \<open>The dictionary literal that starts \<^verbatim>\<open>summary_data\<close>: every column empty.\<close>

definition summary_columns :: "string list \<Rightarrow> table" where
  "summary_columns envs =
     fold (\<lambda>c d. dict_update c [] (\<lambda>_. []) d) ([''Tag Key''] @ envs @ [''Possible Values'']) []"

text \<open>The body of the second loop, for one entry of \<^verbatim>\<open>all_tags\<close>.\<close>

definition summary_step :: "string list \<Rightarrow> string \<times> (string \<times> string set) list \<Rightarrow> table \<Rightarrow> table" where
  "summary_step env_names item d =
     (case item of (tag, envs) \<Rightarrow>
        (let d1 = column_append ''Tag Key'' (Str tag) d;
             d2 = fold (\<lambda>env d. column_append env
                          (Str (if env \<in> set (map fst envs) then ''yes'' else ''no'')) d)
                    env_names d1;
             possible_values = \<Union> (set (map snd envs))
         in column_append ''Possible Values'' (Vals possible_values) d2))"

definition generate_summary_csv :: "(string \<times> resource list) list \<Rightarrow> table" where
  "generate_summary_csv tag_data =
     (let all_tags = collect_tags tag_data;
          summary_data = summary_columns (map fst tag_data)
      in fold (summary_step (map fst tag_data)) all_tags summary_data)"

subsection \<open>Focused coverage summary\<close>

definition focused_columns :: table where
  "focused_columns =
     [(''Environment'', []), (''Focused Tag Key'', []), (''Focused Tag Value'', []),
      (''Excluded Tag Key'', []), (''Excluded Tag Value'', []), (''Total Resources'', []),
      (''Resources with Focused Tags'', []), (''Resources Missing Focused Tags'', [])]"

text \<open>The body of the loop over the environments.\<close>

definition focused_step :: "filters \<Rightarrow> string \<times> resource list \<Rightarrow> table \<Rightarrow> table" where
  "focused_step f item d =
     (case item of (env, tags) \<Rightarrow>
        (let total_resources = length tags;
             (focused_resources, missing_resources) = count_loop f (0, 0) tags
         in fold (\<lambda>(c, v) d. column_append c v d)
              [(''Environment'', Str env),
               (''Focused Tag Key'', Joined (set (include_keys f))),
               (''Focused Tag Value'', Joined (set (include_values f))),
               (''Excluded Tag Key'', Joined (set (exclude_keys f))),
               (''Excluded Tag Value'', Joined (set (exclude_values f))),
               (''Total Resources'', Num total_resources),
               (''Resources with Focused Tags'', Num focused_resources),
               (''Resources Missing Focused Tags'', Num missing_resources)]
              d))"

definition generate_focused_summary_csv :: "(string \<times> resource list) list \<Rightarrow> filters \<Rightarrow> table" where
  "generate_focused_summary_csv tag_data f = fold (focused_step f) tag_data focused_columns"

subsection \<open>Notions for the proofs\<close>

text \<open>
  What the dictionary \<^verbatim>\<open>all_tags\<close> of the presence summary holds, as a relation
  between tag keys and environments: \<open>envs_of\<close> is the set of environments entered under
  a key, and \<open>holds A R\<close> says that \<open>A\<close> has each key once and enters exactly the
  pairs of \<open>R\<close>.
\<close>

definition envs_of :: "(string \<times> (string \<times> string set) list) list \<Rightarrow> string \<Rightarrow> string set" where
  "envs_of A k = (case map_of A k of None \<Rightarrow> {} | Some envs \<Rightarrow> fst ` set envs)"

definition holds :: "(string \<times> (string \<times> string set) list) list \<Rightarrow> (string \<times> string) set \<Rightarrow> bool" where
  "holds A R \<longleftrightarrow>
     distinct (map fst A) \<and> fst ` set A = fst ` R \<and> (\<forall>k. envs_of A k = {e. (k, e) \<in> R})"

section \<open>Properties of the tag filter\<close>

lemma filter_loop_char:
  assumes "\<forall>r\<in>set rs. Tags r \<noteq> None"
  shows "filter_loop f acc rs =
    Inr (acc @ map (\<lambda>r. r\<lparr>Tags := Some (filter (tag_matches f) (get_tags r))\<rparr>)
                  (filter (\<lambda>r. filter (tag_matches f) (get_tags r) \<noteq> []) rs))"
  using assms
proof (induction rs arbitrary: acc)
  case Nil
  show ?case by simp
next
  case (Cons r rs)
  from Cons.prems obtain ts where ts: "Tags r = Some ts" by auto
  from Cons.prems have rest: "\<forall>r\<in>set rs. Tags r \<noteq> None" by simp
  show ?case
    using ts Cons.IH [OF rest] by (simp add: get_tags_def Let_def)
qed

lemma subseq_map_filter: "subseq (map g (filter P xs)) (map g xs)"
  by (induction xs) auto

text \<open>
  C5. On a resource set (every resource carries its tag list) the filter returns, and its
  output is the input with every resource reduced to its matching tags and the resources
  left without a tag removed: every output resource is an input resource with its tag list
  filtered, it has at least one tag, all its tags satisfy \<open>tag_matches\<close> and are a
  subsequence of the tags it had, and the output resources come in the order of the input.
\<close>

theorem filter_tags_sound:
  assumes "\<forall>r\<in>set rs. Tags r \<noteq> None"
  shows "\<exists>out. filter_tags rs f = Inr out
    \<and> out = map (\<lambda>r. r\<lparr>Tags := Some (filter (tag_matches f) (get_tags r))\<rparr>)
               (filter (\<lambda>r. filter (tag_matches f) (get_tags r) \<noteq> []) rs)
    \<and> subseq (map ResourceARN out) (map ResourceARN rs)
    \<and> (\<forall>r'\<in>set out. get_tags r' \<noteq> []
          \<and> (\<forall>t\<in>set (get_tags r'). tag_matches f t)
          \<and> (\<exists>r\<in>set rs. r' = r\<lparr>Tags := Some (get_tags r')\<rparr> \<and> subseq (get_tags r') (get_tags r)))"
proof -
  let ?keep = "\<lambda>r. r\<lparr>Tags := Some (filter (tag_matches f) (get_tags r))\<rparr>"
  let ?live = "\<lambda>r. filter (tag_matches f) (get_tags r) \<noteq> []"
  let ?out = "map ?keep (filter ?live rs)"
  have run: "filter_tags rs f = Inr ?out"
    using filter_loop_char [OF assms, of f "[]"] by (simp add: filter_tags_def)
  have arn: "map ResourceARN ?out = map ResourceARN (filter ?live rs)"
    by simp
  have order: "subseq (map ResourceARN ?out) (map ResourceARN rs)"
    unfolding arn by (rule subseq_map_filter)
  have each: "\<forall>r'\<in>set ?out. get_tags r' \<noteq> []
          \<and> (\<forall>t\<in>set (get_tags r'). tag_matches f t)
          \<and> (\<exists>r\<in>set rs. r' = r\<lparr>Tags := Some (get_tags r')\<rparr> \<and> subseq (get_tags r') (get_tags r))"
  proof
    fix r' assume "r' \<in> set ?out"
    then obtain r where r: "r \<in> set rs" "?live r" "r' = ?keep r" by auto
    have tags: "get_tags r' = filter (tag_matches f) (get_tags r)"
      using r(3) by (simp add: get_tags_def)
    show "get_tags r' \<noteq> []
          \<and> (\<forall>t\<in>set (get_tags r'). tag_matches f t)
          \<and> (\<exists>r\<in>set rs. r' = r\<lparr>Tags := Some (get_tags r')\<rparr> \<and> subseq (get_tags r') (get_tags r))"
      using r tags by auto
  qed
  show ?thesis using run order each by blast
qed

theorem filter_tags_sound_witness:
  "filter_tags
     [\<lparr>ResourceARN = ''arn:x:svc:r1'', Tags = Some [\<lparr>Key = ''Env'', Value = ''prod''\<rparr>]\<rparr>,
      \<lparr>ResourceARN = ''arn:x:svc:r2'',
         Tags = Some [\<lparr>Key = ''Team'', Value = ''core''\<rparr>, \<lparr>Key = ''Env'', Value = ''prod''\<rparr>,
                      \<lparr>Key = ''Team'', Value = ''payments''\<rparr>]\<rparr>,
      \<lparr>ResourceARN = ''arn:x:svc:r3'', Tags = Some []\<rparr>]
     \<lparr>include_keys = [''Team''], exclude_keys = [], include_values = [], exclude_values = []\<rparr>
   = Inr [\<lparr>ResourceARN = ''arn:x:svc:r2'',
            Tags = Some [\<lparr>Key = ''Team'', Value = ''core''\<rparr>, \<lparr>Key = ''Team'', Value = ''payments''\<rparr>]\<rparr>]"
  using filter_tags_sound
    [of "[\<lparr>ResourceARN = ''arn:x:svc:r1'', Tags = Some [\<lparr>Key = ''Env'', Value = ''prod''\<rparr>]\<rparr>,
          \<lparr>ResourceARN = ''arn:x:svc:r2'',
             Tags = Some [\<lparr>Key = ''Team'', Value = ''core''\<rparr>, \<lparr>Key = ''Env'', Value = ''prod''\<rparr>,
                          \<lparr>Key = ''Team'', Value = ''payments''\<rparr>]\<rparr>,
          \<lparr>ResourceARN = ''arn:x:svc:r3'', Tags = Some []\<rparr>]"
        "\<lparr>include_keys = [''Team''], exclude_keys = [], include_values = [], exclude_values = []\<rparr>"]
  by (simp add: tag_matches_def get_tags_def)

section \<open>The two match tests compared\<close>

text \<open>
  C3, as amended. The test of the focused coverage summary is
  \<open>(key \<in> include_keys \<or> value \<in> include_values) \<and> key \<notin> exclude_keys \<and> value \<notin> exclude_values\<close>;
  the test of the tag filter is
  \<open>(include_keys empty \<or> key \<in> include_keys) \<and> key \<notin> exclude_keys \<and>
  (include_values empty \<or> value \<in> include_values) \<and> value \<notin> exclude_values\<close>.
  The summary's test has no convention for empty include lists. The two tests agree on
  every tag when exactly one of the two include lists is empty, and when at least one
  include list is not empty every tag that passes the filter's test passes the summary's.
\<close>

theorem focus_match_tag_matches:
  "(focus_match f t \<longleftrightarrow>
      (Key t \<in> set (include_keys f) \<or> Value t \<in> set (include_values f))
      \<and> Key t \<notin> set (exclude_keys f) \<and> Value t \<notin> set (exclude_values f))
   \<and> (tag_matches f t \<longleftrightarrow>
      (include_keys f = [] \<or> Key t \<in> set (include_keys f)) \<and> Key t \<notin> set (exclude_keys f)
      \<and> (include_values f = [] \<or> Value t \<in> set (include_values f))
      \<and> Value t \<notin> set (exclude_values f))
   \<and> ((include_keys f = [] \<longleftrightarrow> include_values f \<noteq> []) \<longrightarrow> focus_match f t = tag_matches f t)
   \<and> (include_keys f \<noteq> [] \<or> include_values f \<noteq> [] \<longrightarrow> tag_matches f t \<longrightarrow> focus_match f t)"
proof -
  have fm: "focus_match f t \<longleftrightarrow>
      (Key t \<in> set (include_keys f) \<or> Value t \<in> set (include_values f))
      \<and> Key t \<notin> set (exclude_keys f) \<and> Value t \<notin> set (exclude_values f)"
    by (simp add: focus_match_def Let_def)
  have tm: "tag_matches f t \<longleftrightarrow>
      (include_keys f = [] \<or> Key t \<in> set (include_keys f)) \<and> Key t \<notin> set (exclude_keys f)
      \<and> (include_values f = [] \<or> Value t \<in> set (include_values f))
      \<and> Value t \<notin> set (exclude_values f)"
    by (auto simp: tag_matches_def Let_def)
  have agree: "(include_keys f = [] \<longleftrightarrow> include_values f \<noteq> []) \<longrightarrow> focus_match f t = tag_matches f t"
    unfolding fm tm by auto
  have sub: "include_keys f \<noteq> [] \<or> include_values f \<noteq> [] \<longrightarrow> tag_matches f t \<longrightarrow> focus_match f t"
    unfolding fm tm by auto
  show ?thesis using fm tm agree sub by blast
qed

theorem focus_match_tag_matches_witness:
  "focus_match \<lparr>include_keys = [''Team''], exclude_keys = [], include_values = [],
                 exclude_values = [''legacy'']\<rparr> \<lparr>Key = ''Team'', Value = ''core''\<rparr>
   \<and> tag_matches \<lparr>include_keys = [''Team''], exclude_keys = [], include_values = [],
                 exclude_values = [''legacy'']\<rparr> \<lparr>Key = ''Team'', Value = ''core''\<rparr>"
  using focus_match_tag_matches
    [of "\<lparr>include_keys = [''Team''], exclude_keys = [], include_values = [],
           exclude_values = [''legacy'']\<rparr>" "\<lparr>Key = ''Team'', Value = ''core''\<rparr>"]
  by simp

text \<open>
  With both include lists empty the filter's test accepts a tag that the summary's test
  rejects; with both given, the summary's test accepts a tag whose key is included and
  whose value is not, which the filter's test rejects.
\<close>

theorem focus_match_differs:
  "tag_matches \<lparr>include_keys = [], exclude_keys = [], include_values = [], exclude_values = []\<rparr>
       \<lparr>Key = ''Team'', Value = ''core''\<rparr>
   \<and> \<not> focus_match \<lparr>include_keys = [], exclude_keys = [], include_values = [], exclude_values = []\<rparr>
       \<lparr>Key = ''Team'', Value = ''core''\<rparr>
   \<and> focus_match \<lparr>include_keys = [''Team''], exclude_keys = [], include_values = [''prod''],
         exclude_values = []\<rparr> \<lparr>Key = ''Team'', Value = ''dev''\<rparr>
   \<and> \<not> tag_matches \<lparr>include_keys = [''Team''], exclude_keys = [], include_values = [''prod''],
         exclude_values = []\<rparr> \<lparr>Key = ''Team'', Value = ''dev''\<rparr>"
  by (simp add: tag_matches_def focus_match_def)

section \<open>Properties of the matrix projector\<close>

lemma split_on_nonempty: "split_on c s \<noteq> []"
  by (induction s) (auto split: list.splits)

lemma split_on_length: "length (split_on c s) = Suc (length (filter (\<lambda>x. x = c) s))"
  by (induction s) (auto split: list.splits simp: split_on_nonempty)

lemma fold_insert_keys: "fold (\<lambda>tag acc. insert (Key tag) acc) ts A = A \<union> Key ` set ts"
  by (induction ts arbitrary: A) auto

lemma fold_all_tags:
  "fold (\<lambda>resource acc. fold (\<lambda>tag acc. insert (Key tag) acc) (get_tags resource) acc) rs A
     = A \<union> (\<Union>r\<in>set rs. Key ` set (get_tags r))"
  by (induction rs arbitrary: A) (auto simp: fold_insert_keys)

lemma all_tags_eq: "all_tags rs = (\<Union>r\<in>set rs. Key ` set (get_tags r))"
  by (simp add: all_tags_def fold_all_tags)

lemma finite_all_tags: "finite (all_tags rs)"
  by (simp add: all_tags_eq)

lemma set_sorted_tags: "set (sorted_tags rs) = (\<Union>r\<in>set rs. Key ` set (get_tags r))"
  by (simp add: sorted_tags_def finite_all_tags all_tags_eq [symmetric])

lemma sorted_sorted_tags: "sorted (sorted_tags rs)"
  by (simp add: sorted_tags_def)

lemma distinct_sorted_tags: "distinct (sorted_tags rs)"
  by (simp add: sorted_tags_def)

lemma sorted_tags_code:
  "sorted_tags rs = sort (remdups (concat (map (\<lambda>r. map Key (get_tags r)) rs)))"
proof -
  have "all_tags rs = set (concat (map (\<lambda>r. map Key (get_tags r)) rs))"
    by (auto simp: all_tags_eq)
  then show ?thesis
    by (simp only: sorted_tags_def sorted_list_of_set_sort_remdups)
qed

lemma map_of_init:
  "map_of (map (\<lambda>tag. (tag, v)) tags) k = (if k \<in> set tags then Some v else None)"
  by (induction tags) auto

lemma assign_apply:
  "assign tag d k = (if d (Key tag) \<noteq> None \<and> k = Key tag then Some (Value tag) else d k)"
  by (simp add: assign_def)

lemma fold_assign:
  "fold assign ts d k
     = (if d k \<noteq> None \<and> (\<exists>t\<in>set ts. Key t = k)
        then Some (Value (last (filter (\<lambda>t. Key t = k) ts))) else d k)"
proof (induction ts arbitrary: k rule: rev_induct)
  case Nil
  show ?case by simp
next
  case (snoc t ts)
  have last_step: "fold assign (ts @ [t]) d k =
      (if fold assign ts d (Key t) \<noteq> None \<and> k = Key t then Some (Value t)
       else fold assign ts d k)"
    by (simp add: assign_def)
  show ?case
    unfolding last_step snoc.IH by auto
qed

lemma tag_values_eq:
  "tag_values tags r k =
     (if k \<in> set tags
      then Some (if \<exists>t\<in>set (get_tags r). Key t = k
                 then Value (last (filter (\<lambda>t. Key t = k) (get_tags r))) else ''N/A'')
      else None)"
  by (simp add: tag_values_def fold_assign map_of_init)

lemma dict_items_tag_values:
  "set ks \<subseteq> set tags \<Longrightarrow>
     dict_items (tag_values tags r) ks = Inr (map (\<lambda>k. dict_get (tag_values tags r) k ''N/A'') ks)"
  by (induction ks) (auto simp: dict_item_def dict_get_def tag_values_eq)

lemma project_row_full:
  "project_row tags Full excl r =
     (if 2 < length (split_on CHR '':'' (ResourceARN r))
      then Inr (Some ([ResourceARN r, split_on CHR '':'' (ResourceARN r) ! 2]
                       @ map (\<lambda>k. dict_get (tag_values tags r) k ''N/A'') tags))
      else Inl IndexError)"
  by (simp add: project_row_def index_def dict_items_tag_values Let_def)

lemma project_row_focused:
  "project_row tags (Focused k) (Some ev) r =
     (if 2 < length (split_on CHR '':'' (ResourceARN r))
      then (if dict_get (tag_values tags r) k ''N/A'' \<in> set ev then Inr None
            else Inr (Some [ResourceARN r, split_on CHR '':'' (ResourceARN r) ! 2,
                            dict_get (tag_values tags r) k ''N/A'']))
      else Inl IndexError)"
  by (simp add: project_row_def index_def Let_def)

lemma project_row_short:
  "\<not> 2 < length (split_on CHR '':'' (ResourceARN r)) \<Longrightarrow> project_row tags m excl r = Inl IndexError"
  by (simp add: project_row_def index_def)

lemma rows_loop_full:
  "\<forall>r\<in>set rs. 2 < length (split_on CHR '':'' (ResourceARN r)) \<Longrightarrow>
   rows_loop tags Full excl acc rs =
     Inr (acc @ map (\<lambda>r. [ResourceARN r, split_on CHR '':'' (ResourceARN r) ! 2]
                           @ map (\<lambda>k. dict_get (tag_values tags r) k ''N/A'') tags) rs)"
  by (induction rs arbitrary: acc) (simp_all add: project_row_full)

lemma rows_loop_focused:
  "\<forall>r\<in>set rs. 2 < length (split_on CHR '':'' (ResourceARN r)) \<Longrightarrow>
   rows_loop tags (Focused k) (Some ev) acc rs =
     Inr (acc @ map (\<lambda>r. [ResourceARN r, split_on CHR '':'' (ResourceARN r) ! 2,
                           dict_get (tag_values tags r) k ''N/A''])
                  (filter (\<lambda>r. dict_get (tag_values tags r) k ''N/A'' \<notin> set ev) rs))"
  by (induction rs arbitrary: acc) (simp_all add: project_row_focused)

lemma rows_loop_short:
  "\<exists>r\<in>set rs. \<not> 2 < length (split_on CHR '':'' (ResourceARN r)) \<Longrightarrow>
   \<exists>e. rows_loop tags m excl acc rs = Inl e"
proof (induction rs arbitrary: acc)
  case Nil
  then show ?case by simp
next
  case (Cons r rs)
  show ?case
  proof (cases "project_row tags m excl r")
    case (Inl e)
    then show ?thesis by simp
  next
    case (Inr res)
    then have "2 < length (split_on CHR '':'' (ResourceARN r))"
      using project_row_short [of r tags m excl] by auto
    with Cons.prems have "\<exists>r\<in>set rs. \<not> 2 < length (split_on CHR '':'' (ResourceARN r))"
      by auto
    from Cons.IH [OF this] show ?thesis
      using Inr by (cases res) auto
  qed
qed

lemma rows_loop_full_short:
  "\<exists>r\<in>set rs. \<not> 2 < length (split_on CHR '':'' (ResourceARN r)) \<Longrightarrow>
   rows_loop tags Full excl acc rs = Inl IndexError"
  by (induction rs arbitrary: acc) (auto simp: project_row_full)


lemma rows_loop_focused_short:
  "\<exists>r\<in>set rs. \<not> 2 < length (split_on CHR '':'' (ResourceARN r)) \<Longrightarrow>
   rows_loop tags (Focused k) (Some ev) acc rs = Inl IndexError"
  by (induction rs arbitrary: acc) (auto simp: project_row_focused)

lemma cell_eq:
  assumes "r \<in> set rs"
  shows "dict_get (tag_values (sorted_tags rs) r) k ''N/A'' =
     (if \<exists>t\<in>set (get_tags r). Key t = k
      then Value (last (filter (\<lambda>t. Key t = k) (get_tags r))) else ''N/A'')"
proof (cases "\<exists>t\<in>set (get_tags r). Key t = k")
  case True
  with assms have "k \<in> set (sorted_tags rs)"
    by (auto simp: set_sorted_tags)
  with True show ?thesis
    by (simp add: dict_get_def tag_values_eq)
next
  case False
  then show ?thesis
    by (simp add: dict_get_def tag_values_eq)
qed

text \<open>
  C4, as amended. In a row of the projector, the value under a tag key is the value of the
  last tag of the resource that has this key (a later duplicate overwrites an earlier
  one), and \<open>N/A\<close> when the resource has no tag with this key.
\<close>

theorem projected_value_last_match:
  assumes "r \<in> set rs" and "project_row (sorted_tags rs) m excl r = Inr (Some row)"
  shows "(m = Full \<longrightarrow> (\<forall>j<length (sorted_tags rs).
             row ! (2 + j) =
               (if \<exists>t\<in>set (get_tags r). Key t = sorted_tags rs ! j
                then Value (last (filter (\<lambda>t. Key t = sorted_tags rs ! j) (get_tags r)))
                else ''N/A'')))
       \<and> (\<forall>k. m = Focused k \<longrightarrow>
             row ! 2 =
               (if \<exists>t\<in>set (get_tags r). Key t = k
                then Value (last (filter (\<lambda>t. Key t = k) (get_tags r))) else ''N/A''))"
proof (cases m)
  case Full
  from assms(2) have row: "row = [ResourceARN r, split_on CHR '':'' (ResourceARN r) ! 2]
      @ map (\<lambda>k. dict_get (tag_values (sorted_tags rs) r) k ''N/A'') (sorted_tags rs)"
    unfolding Full project_row_full by (simp split: if_splits)
  have "\<forall>j<length (sorted_tags rs).
      row ! (2 + j) = dict_get (tag_values (sorted_tags rs) r) (sorted_tags rs ! j) ''N/A''"
    unfolding row by simp
  then show ?thesis
    using Full by (simp add: cell_eq [OF assms(1)])
next
  case (Focused k)
  show ?thesis
  proof (cases excl)
    case None
    with assms(2) Focused show ?thesis
      by (simp add: project_row_def Let_def split: sum.splits)
  next
    case (Some ev)
    from assms(2) have "row ! 2 = dict_get (tag_values (sorted_tags rs) r) k ''N/A''"
      unfolding Focused Some project_row_focused by (auto split: if_splits)
    then show ?thesis
      using Focused by (simp add: cell_eq [OF assms(1)])
  qed
qed

lemmas eval_projector =
  json_to_csv_def sorted_tags_code mode_of_def csv_header_def project_row_def index_def
  tag_values_def assign_def dict_get_def dict_item_def get_tags_def Let_def

theorem projected_value_last_match_witness:
  "project_row
     (sorted_tags [\<lparr>ResourceARN = ''arn:x:svc:r1'',
                     Tags = Some [\<lparr>Key = ''Team'', Value = ''core''\<rparr>, \<lparr>Key = ''Env'', Value = ''prod''\<rparr>,
                                  \<lparr>Key = ''Team'', Value = ''payments''\<rparr>]\<rparr>])
     Full None
     \<lparr>ResourceARN = ''arn:x:svc:r1'',
        Tags = Some [\<lparr>Key = ''Team'', Value = ''core''\<rparr>, \<lparr>Key = ''Env'', Value = ''prod''\<rparr>,
                     \<lparr>Key = ''Team'', Value = ''payments''\<rparr>]\<rparr>
     = Inr (Some [''arn:x:svc:r1'', ''svc'', ''prod'', ''payments''])
   \<and> [''arn:x:svc:r1'', ''svc'', ''prod'', ''payments''] ! (2 + 1) = ''payments''"
  using projected_value_last_match
    [of "\<lparr>ResourceARN = ''arn:x:svc:r1'',
           Tags = Some [\<lparr>Key = ''Team'', Value = ''core''\<rparr>, \<lparr>Key = ''Env'', Value = ''prod''\<rparr>,
                        \<lparr>Key = ''Team'', Value = ''payments''\<rparr>]\<rparr>"
        "[\<lparr>ResourceARN = ''arn:x:svc:r1'',
           Tags = Some [\<lparr>Key = ''Team'', Value = ''core''\<rparr>, \<lparr>Key = ''Env'', Value = ''prod''\<rparr>,
                        \<lparr>Key = ''Team'', Value = ''payments''\<rparr>]\<rparr>]"
        Full None "[''arn:x:svc:r1'', ''svc'', ''prod'', ''payments'']"]
  by (simp add: eval_projector)

text \<open>
  A resource with the key \<open>Team\<close> twice: the row holds the value of the second tag, not
  of the first.
\<close>

theorem first_match_does_not_win:
  "json_to_csv
     [\<lparr>ResourceARN = ''arn:x:svc:r1'',
        Tags = Some [\<lparr>Key = ''Team'', Value = ''core''\<rparr>, \<lparr>Key = ''Team'', Value = ''payments''\<rparr>]\<rparr>]
     None None
   = Inr ([''Resource ARN'', ''Resource Type'', ''Team''], [[''arn:x:svc:r1'', ''svc'', ''payments'']])
   \<and> Value (hd (filter (\<lambda>t. Key t = ''Team'')
         [\<lparr>Key = ''Team'', Value = ''core''\<rparr>, \<lparr>Key = ''Team'', Value = ''payments''\<rparr>])) = ''core''"
  by (simp add: eval_projector)

lemma json_to_csv_full:
  assumes "mode_of focus_key = Full"
  shows "json_to_csv rs focus_key excl =
     (if \<forall>r\<in>set rs. 2 < length (split_on CHR '':'' (ResourceARN r))
      then Inr ([''Resource ARN'', ''Resource Type''] @ sorted_tags rs,
                map (\<lambda>r. [ResourceARN r, split_on CHR '':'' (ResourceARN r) ! 2]
                          @ map (\<lambda>k. dict_get (tag_values (sorted_tags rs) r) k ''N/A'')
                              (sorted_tags rs)) rs)
      else Inl IndexError)"
proof (cases "\<forall>r\<in>set rs. 2 < length (split_on CHR '':'' (ResourceARN r))")
  case True
  then show ?thesis
    using assms rows_loop_full [OF True, of "sorted_tags rs" excl "[]"]
    by (simp add: json_to_csv_def csv_header_def Let_def)
next
  case False
  then have "\<exists>r\<in>set rs. \<not> 2 < length (split_on CHR '':'' (ResourceARN r))" by simp
  from rows_loop_full_short [OF this, of "sorted_tags rs" excl "[]"] False
  show ?thesis
    using assms by (simp add: json_to_csv_def Let_def)
qed

lemma json_to_csv_focused:
  assumes "mode_of focus_key = Focused k"
  shows "json_to_csv rs focus_key (Some ev) =
     (if \<forall>r\<in>set rs. 2 < length (split_on CHR '':'' (ResourceARN r))
      then Inr ([''Resource ARN'', ''Resource Type'', k],
                map (\<lambda>r. [ResourceARN r, split_on CHR '':'' (ResourceARN r) ! 2,
                           dict_get (tag_values (sorted_tags rs) r) k ''N/A''])
                  (filter (\<lambda>r. dict_get (tag_values (sorted_tags rs) r) k ''N/A'' \<notin> set ev) rs))
      else Inl IndexError)"
proof (cases "\<forall>r\<in>set rs. 2 < length (split_on CHR '':'' (ResourceARN r))")
  case True
  then show ?thesis
    using assms rows_loop_focused [OF True, of "sorted_tags rs" k ev "[]"]
    by (simp add: json_to_csv_def csv_header_def Let_def)
next
  case False
  then have "\<exists>r\<in>set rs. \<not> 2 < length (split_on CHR '':'' (ResourceARN r))" by simp
  from rows_loop_focused_short [OF this, of "sorted_tags rs" k ev "[]"] False
  show ?thesis
    using assms by (simp add: json_to_csv_def Let_def)
qed

text \<open>
  C6. In full mode the columns are the tag keys of the input, each once, in ascending
  lexicographic order; whenever the projector returns, its header is the two fixed columns
  followed by these, it has one row for each resource, every row has two entries more
  than there are columns, and the entry of a resource under a key it does not carry is
  \<open>N/A\<close>. The projector returns when every ARN has at least three segments.
\<close>

theorem full_mode_matrix:
  assumes "mode_of focus_key = Full"
  shows "set (sorted_tags rs) = (\<Union>r\<in>set rs. Key ` set (get_tags r))
     \<and> sorted (sorted_tags rs) \<and> distinct (sorted_tags rs)
     \<and> (\<forall>header rows. json_to_csv rs focus_key excl = Inr (header, rows) \<longrightarrow>
          header = [''Resource ARN'', ''Resource Type''] @ sorted_tags rs
          \<and> length rows = length rs
          \<and> (\<forall>row\<in>set rows. length row = 2 + length (sorted_tags rs))
          \<and> (\<forall>i<length rs. \<forall>j<length (sorted_tags rs).
                sorted_tags rs ! j \<notin> Key ` set (get_tags (rs ! i)) \<longrightarrow> rows ! i ! (2 + j) = ''N/A''))
     \<and> ((\<forall>r\<in>set rs. 2 < length (split_on CHR '':'' (ResourceARN r)))
          \<longrightarrow> (\<exists>header rows. json_to_csv rs focus_key excl = Inr (header, rows)))"
proof -
  let ?tags = "sorted_tags rs"
  let ?row = "\<lambda>r. [ResourceARN r, split_on CHR '':'' (ResourceARN r) ! 2]
                 @ map (\<lambda>k. dict_get (tag_values ?tags r) k ''N/A'') ?tags"
  have cols: "set ?tags = (\<Union>r\<in>set rs. Key ` set (get_tags r))" "sorted ?tags" "distinct ?tags"
    by (rule set_sorted_tags, rule sorted_sorted_tags, rule distinct_sorted_tags)
  have out: "header = [''Resource ARN'', ''Resource Type''] @ ?tags
          \<and> length rows = length rs
          \<and> (\<forall>row\<in>set rows. length row = 2 + length ?tags)
          \<and> (\<forall>i<length rs. \<forall>j<length ?tags.
                ?tags ! j \<notin> Key ` set (get_tags (rs ! i)) \<longrightarrow> rows ! i ! (2 + j) = ''N/A'')"
    if ret: "json_to_csv rs focus_key excl = Inr (header, rows)" for header rows
  proof -
    from ret have hdr: "header = [''Resource ARN'', ''Resource Type''] @ ?tags"
      and rows: "rows = map ?row rs"
      unfolding json_to_csv_full [OF assms] by (auto split: if_splits)
    have len: "length rows = length rs" and width: "\<forall>row\<in>set rows. length row = 2 + length ?tags"
      unfolding rows by auto
    have na: "rows ! i ! (2 + j) = ''N/A''"
      if "i < length rs" "j < length ?tags" "?tags ! j \<notin> Key ` set (get_tags (rs ! i))" for i j
    proof -
      have "rows ! i ! (2 + j) = dict_get (tag_values ?tags (rs ! i)) (?tags ! j) ''N/A''"
        unfolding rows using that(1,2) by simp
      also have "\<dots> = ''N/A''"
      proof -
        from that(3) have "\<not> (\<exists>t\<in>set (get_tags (rs ! i)). Key t = ?tags ! j)"
          by force
        moreover from that(1) have "rs ! i \<in> set rs"
          by simp
        ultimately show ?thesis
          by (simp add: cell_eq)
      qed
      finally show ?thesis .
    qed
    show ?thesis using hdr len width na by blast
  qed
  have ret: "\<exists>header rows. json_to_csv rs focus_key excl = Inr (header, rows)"
    if "\<forall>r\<in>set rs. 2 < length (split_on CHR '':'' (ResourceARN r))"
    unfolding json_to_csv_full [OF assms] using that by simp
  show ?thesis using cols out ret by blast
qed

theorem full_mode_matrix_witness:
  "json_to_csv
     [\<lparr>ResourceARN = ''arn:x:svc:r1'', Tags = Some [\<lparr>Key = ''Team'', Value = ''payments''\<rparr>]\<rparr>,
      \<lparr>ResourceARN = ''arn:x:svc:r2'',
         Tags = Some [\<lparr>Key = ''Team'', Value = ''core''\<rparr>, \<lparr>Key = ''Env'', Value = ''prod''\<rparr>]\<rparr>]
     None None
   = Inr ([''Resource ARN'', ''Resource Type'', ''Env'', ''Team''],
          [[''arn:x:svc:r1'', ''svc'', ''N/A'', ''payments''],
           [''arn:x:svc:r2'', ''svc'', ''prod'', ''core'']])"
  using full_mode_matrix
    [of None
        "[\<lparr>ResourceARN = ''arn:x:svc:r1'', Tags = Some [\<lparr>Key = ''Team'', Value = ''payments''\<rparr>]\<rparr>,
          \<lparr>ResourceARN = ''arn:x:svc:r2'',
             Tags = Some [\<lparr>Key = ''Team'', Value = ''core''\<rparr>, \<lparr>Key = ''Env'', Value = ''prod''\<rparr>]\<rparr>]"
        None]
  by (simp add: eval_projector)

text \<open>
  C10. In full mode, on resources whose ARNs have at least three segments, the projector
  returns one row for each input resource, in input order: the ARN, its third segment and
  the value under every column. A resource with an empty or missing tag list gets its
  row too, with \<open>N/A\<close> in every tag column.
\<close>

theorem full_mode_keeps_every_resource:
  assumes "mode_of focus_key = Full"
    and "\<forall>r\<in>set rs. 2 < length (split_on CHR '':'' (ResourceARN r))"
  shows "\<exists>rows. json_to_csv rs focus_key excl
           = Inr ([''Resource ARN'', ''Resource Type''] @ sorted_tags rs, rows)
     \<and> length rows = length rs
     \<and> rows = map (\<lambda>r. [ResourceARN r, split_on CHR '':'' (ResourceARN r) ! 2]
                        @ map (\<lambda>k. dict_get (tag_values (sorted_tags rs) r) k ''N/A'')
                            (sorted_tags rs)) rs
     \<and> (\<forall>r\<in>set rs. get_tags r = [] \<longrightarrow>
           map (\<lambda>k. dict_get (tag_values (sorted_tags rs) r) k ''N/A'') (sorted_tags rs)
             = replicate (length (sorted_tags rs)) ''N/A'')"
proof -
  have empty: "map (\<lambda>k. dict_get (tag_values (sorted_tags rs) r) k ''N/A'') (sorted_tags rs)
             = replicate (length (sorted_tags rs)) ''N/A''"
    if "r \<in> set rs" "get_tags r = []" for r
    using that by (simp add: cell_eq map_replicate_const)
  show ?thesis
    unfolding json_to_csv_full [OF assms(1)] using assms(2) empty by simp
qed

theorem full_mode_keeps_every_resource_witness:
  "json_to_csv
     [\<lparr>ResourceARN = ''arn:aws:ec2:eu-central-1:1:instance/i-1'', Tags = Some []\<rparr>,
      \<lparr>ResourceARN = ''arn:aws:s3:::bucket'', Tags = Some [\<lparr>Key = ''Owner'', Value = ''ops''\<rparr>]\<rparr>,
      \<lparr>ResourceARN = ''arn:aws:sqs:eu-central-1:1:queue'', Tags = None\<rparr>]
     (Some []) None
   = Inr ([''Resource ARN'', ''Resource Type'', ''Owner''],
          [[''arn:aws:ec2:eu-central-1:1:instance/i-1'', ''ec2'', ''N/A''],
           [''arn:aws:s3:::bucket'', ''s3'', ''ops''],
           [''arn:aws:sqs:eu-central-1:1:queue'', ''sqs'', ''N/A'']])"
  using full_mode_keeps_every_resource
    [of "Some []"
        "[\<lparr>ResourceARN = ''arn:aws:ec2:eu-central-1:1:instance/i-1'', Tags = Some []\<rparr>,
          \<lparr>ResourceARN = ''arn:aws:s3:::bucket'', Tags = Some [\<lparr>Key = ''Owner'', Value = ''ops''\<rparr>]\<rparr>,
          \<lparr>ResourceARN = ''arn:aws:sqs:eu-central-1:1:queue'', Tags = None\<rparr>]"
        None]
  by (simp add: eval_projector)

text \<open>
  C7. In focused mode with a list of excluded values, whenever the projector returns, its
  rows are exactly the rows of the resources whose value under the focus key is not
  excluded, in input order, so there are as many rows as such resources; a resource
  whose value is excluded has no row at all. The projector returns when every ARN has at
  least three segments.
\<close>

theorem focused_mode_row_count:
  assumes "mode_of focus_key = Focused k"
  shows "(\<forall>header rows. json_to_csv rs focus_key (Some ev) = Inr (header, rows) \<longrightarrow>
          header = [''Resource ARN'', ''Resource Type'', k]
          \<and> rows = map (\<lambda>r. [ResourceARN r, split_on CHR '':'' (ResourceARN r) ! 2,
                              dict_get (tag_values (sorted_tags rs) r) k ''N/A''])
                     (filter (\<lambda>r. dict_get (tag_values (sorted_tags rs) r) k ''N/A'' \<notin> set ev) rs)
          \<and> length rows
              = length (filter (\<lambda>r. dict_get (tag_values (sorted_tags rs) r) k ''N/A'' \<notin> set ev) rs))
     \<and> ((\<forall>r\<in>set rs. 2 < length (split_on CHR '':'' (ResourceARN r)))
          \<longrightarrow> (\<exists>header rows. json_to_csv rs focus_key (Some ev) = Inr (header, rows)))"
  unfolding json_to_csv_focused [OF assms] by (auto split: if_splits)

theorem focused_mode_row_count_witness:
  "json_to_csv
     [\<lparr>ResourceARN = ''arn:x:svc:r1'', Tags = Some [\<lparr>Key = ''Team'', Value = ''payments''\<rparr>]\<rparr>,
      \<lparr>ResourceARN = ''arn:x:svc:r2'',
         Tags = Some [\<lparr>Key = ''Team'', Value = ''core''\<rparr>, \<lparr>Key = ''Env'', Value = ''prod''\<rparr>]\<rparr>,
      \<lparr>ResourceARN = ''arn:x:svc:r3'', Tags = Some [\<lparr>Key = ''Env'', Value = ''dev''\<rparr>]\<rparr>]
     (Some ''Team'') (Some [''core''])
   = Inr ([''Resource ARN'', ''Resource Type'', ''Team''],
          [[''arn:x:svc:r1'', ''svc'', ''payments''], [''arn:x:svc:r3'', ''svc'', ''N/A'']])"
  using focused_mode_row_count
    [of "Some ''Team''" "''Team''"
        "[\<lparr>ResourceARN = ''arn:x:svc:r1'', Tags = Some [\<lparr>Key = ''Team'', Value = ''payments''\<rparr>]\<rparr>,
          \<lparr>ResourceARN = ''arn:x:svc:r2'',
             Tags = Some [\<lparr>Key = ''Team'', Value = ''core''\<rparr>, \<lparr>Key = ''Env'', Value = ''prod''\<rparr>]\<rparr>,
          \<lparr>ResourceARN = ''arn:x:svc:r3'', Tags = Some [\<lparr>Key = ''Env'', Value = ''dev''\<rparr>]\<rparr>]"
        "[''core'']"]
  by (simp add: eval_projector)

lemma split_on_examples:
  "split_on CHR '':'' ''arn:aws:s3:::bucket'' = [''arn'', ''aws'', ''s3'', [], [], ''bucket'']"
  "split_on CHR '':'' ''no-colon'' = [''no-colon'']"
  "split_on CHR '':'' [] = [[]]"
  "split_on CHR '':'' ''a:'' = [''a'', []]"
  by simp_all

lemma split_on_segments: "seg \<in> set (split_on c s) \<Longrightarrow> c \<notin> set seg"
proof (induction s arbitrary: seg)
  case Nil
  then show ?case by simp
next
  case (Cons x xs)
  then show ?case
    by (cases "split_on c xs") (auto simp: split_on_nonempty split: if_splits)
qed

lemma project_row_type:
  assumes "project_row tags m excl r = Inr (Some row)"
  shows "2 < length (split_on CHR '':'' (ResourceARN r)) \<and> row ! 0 = ResourceARN r
     \<and> row ! 1 = split_on CHR '':'' (ResourceARN r) ! 2"
  using assms
  by (auto simp: project_row_def index_def Let_def
           split: if_splits mode.splits option.splits sum.splits)

lemma rows_loop_rows:
  "rows_loop tags m excl acc rs = Inr rows \<Longrightarrow>
   \<forall>row\<in>set rows. row \<in> set acc \<or> (\<exists>r\<in>set rs. project_row tags m excl r = Inr (Some row))"
proof (induction rs arbitrary: acc)
  case Nil
  then show ?case by auto
next
  case (Cons r rs)
  show ?case
  proof (cases "project_row tags m excl r")
    case (Inl e)
    with Cons.prems show ?thesis by simp
  next
    case (Inr res)
    show ?thesis
    proof (cases res)
      case None
      with Inr Cons.prems have "rows_loop tags m excl acc rs = Inr rows" by simp
      from Cons.IH [OF this] show ?thesis by auto
    next
      case (Some row')
      with Inr Cons.prems have "rows_loop tags m excl (acc @ [row']) rs = Inr rows" by simp
      from Cons.IH [OF this] show ?thesis
        using Inr Some by auto
    qed
  qed
qed

text \<open>
  C9, as amended. The projector has no handling for an ARN of fewer than three
  colon-delimited segments: on a resource list that holds one it raises and returns no
  header and no row, with \<open>IndexError\<close> in full mode and in focused mode with a list of
  excluded values. Whenever it returns, every row starts with the ARN of an input resource
  that has at least three segments, followed by the third segment as the type.
\<close>

theorem arn_type_third_segment_or_abort:
  "(r \<in> set rs \<and> length (split_on CHR '':'' (ResourceARN r)) < 3 \<longrightarrow>
       (\<exists>e. json_to_csv rs focus_key excl = Inl e)
       \<and> (mode_of focus_key = Full \<or> excl \<noteq> None \<longrightarrow> json_to_csv rs focus_key excl = Inl IndexError))
   \<and> (json_to_csv rs focus_key excl = Inr (header, rows) \<longrightarrow>
       (\<forall>row\<in>set rows. \<exists>r\<in>set rs. 3 \<le> length (split_on CHR '':'' (ResourceARN r))
           \<and> row ! 0 = ResourceARN r \<and> row ! 1 = split_on CHR '':'' (ResourceARN r) ! 2))"
proof -
  have short: "(\<exists>e. json_to_csv rs focus_key excl = Inl e)
       \<and> (mode_of focus_key = Full \<or> excl \<noteq> None \<longrightarrow> json_to_csv rs focus_key excl = Inl IndexError)"
    if "r \<in> set rs" "length (split_on CHR '':'' (ResourceARN r)) < 3"
  proof -
    from that(2) have "\<not> 2 < length (split_on CHR '':'' (ResourceARN r))"
      by simp
    with that(1) have bad: "\<exists>r\<in>set rs. \<not> 2 < length (split_on CHR '':'' (ResourceARN r))"
      by blast
    from rows_loop_short [OF bad, of "sorted_tags rs" "mode_of focus_key" excl "[]"]
    have raised: "\<exists>e. json_to_csv rs focus_key excl = Inl e"
      by (auto simp: json_to_csv_def Let_def)
    have which: "json_to_csv rs focus_key excl = Inl IndexError"
      if "mode_of focus_key = Full \<or> excl \<noteq> None"
    proof (cases "mode_of focus_key")
      case Full
      then show ?thesis
        using bad by (simp add: json_to_csv_full)
    next
      case (Focused k)
      with that obtain ev where "excl = Some ev" by auto
      then show ?thesis
        using Focused rows_loop_focused_short [OF bad, of "sorted_tags rs" k ev "[]"]
        by (simp add: json_to_csv_def Let_def)
    qed
    show ?thesis using raised which by blast
  qed
  have long: "\<forall>row\<in>set rows. \<exists>r\<in>set rs. 3 \<le> length (split_on CHR '':'' (ResourceARN r))
           \<and> row ! 0 = ResourceARN r \<and> row ! 1 = split_on CHR '':'' (ResourceARN r) ! 2"
    if "json_to_csv rs focus_key excl = Inr (header, rows)"
  proof
    fix row assume row: "row \<in> set rows"
    from that have "rows_loop (sorted_tags rs) (mode_of focus_key) excl [] rs = Inr rows"
      by (auto simp: json_to_csv_def Let_def split: sum.splits)
    from rows_loop_rows [OF this] row
    obtain r' where r': "r' \<in> set rs"
      "project_row (sorted_tags rs) (mode_of focus_key) excl r' = Inr (Some row)"
      by auto
    from project_row_type [OF r'(2)] r'(1)
    show "\<exists>r\<in>set rs. 3 \<le> length (split_on CHR '':'' (ResourceARN r))
           \<and> row ! 0 = ResourceARN r \<and> row ! 1 = split_on CHR '':'' (ResourceARN r) ! 2"
      by (intro bexI [of _ r']) auto
  qed
  show ?thesis using short long by blast
qed

theorem arn_type_third_segment_or_abort_witness:
  "json_to_csv
     [\<lparr>ResourceARN = ''arn:aws:s3:::bucket'', Tags = Some [\<lparr>Key = ''Owner'', Value = ''ops''\<rparr>]\<rparr>,
      \<lparr>ResourceARN = ''bucket'', Tags = Some [\<lparr>Key = ''Owner'', Value = ''ops''\<rparr>]\<rparr>]
     None None = Inl IndexError
   \<and> json_to_csv
     [\<lparr>ResourceARN = ''arn:aws:s3:::bucket'', Tags = Some [\<lparr>Key = ''Owner'', Value = ''ops''\<rparr>]\<rparr>]
     None None
     = Inr ([''Resource ARN'', ''Resource Type'', ''Owner''], [[''arn:aws:s3:::bucket'', ''s3'', ''ops'']])"
  using arn_type_third_segment_or_abort
    [of "\<lparr>ResourceARN = ''bucket'', Tags = Some [\<lparr>Key = ''Owner'', Value = ''ops''\<rparr>]\<rparr>"
        "[\<lparr>ResourceARN = ''arn:aws:s3:::bucket'', Tags = Some [\<lparr>Key = ''Owner'', Value = ''ops''\<rparr>]\<rparr>,
          \<lparr>ResourceARN = ''bucket'', Tags = Some [\<lparr>Key = ''Owner'', Value = ''ops''\<rparr>]\<rparr>]"
        None None "[]" "[]"]
    arn_type_third_segment_or_abort
    [of "\<lparr>ResourceARN = ''arn:aws:s3:::bucket'', Tags = Some [\<lparr>Key = ''Owner'', Value = ''ops''\<rparr>]\<rparr>"
        "[\<lparr>ResourceARN = ''arn:aws:s3:::bucket'', Tags = Some [\<lparr>Key = ''Owner'', Value = ''ops''\<rparr>]\<rparr>]"
        None None "[''Resource ARN'', ''Resource Type'', ''Owner'']"
        "[[''arn:aws:s3:::bucket'', ''s3'', ''ops'']]"]
  by (simp add: eval_projector)

text \<open>
  An ARN of two segments: the projector raises, it does not emit a row of type
  \<open>unknown\<close>.
\<close>

theorem short_arn_aborts:
  "length (split_on CHR '':'' ''arn:x'') = 2
   \<and> json_to_csv [\<lparr>ResourceARN = ''arn:x'', Tags = Some [\<lparr>Key = ''Team'', Value = ''core''\<rparr>]\<rparr>]
        None None = Inl IndexError
   \<and> json_to_csv [\<lparr>ResourceARN = ''arn:x'', Tags = Some [\<lparr>Key = ''Team'', Value = ''core''\<rparr>]\<rparr>]
        (Some ''Team'') (Some []) = Inl IndexError"
  by (simp add: eval_projector)

section \<open>Properties of the fetch\<close>






lemma fetch_pages:
  assumes "pages \<noteq> []"
    and "\<forall>p\<in>set (butlast pages). truthy (PaginationToken p)"
    and "\<not> truthy (PaginationToken (last pages))"
  shows "fetch_loop mr s (map Parsed pages @ rest)
           = Some (Inr (resources s @ concat (map page_records pages)))
     \<and> loop_commands region mr s (map Parsed pages @ rest)
           = command region (next_token s)
             # map (\<lambda>p. command region (PaginationToken p)) (butlast pages)"
  using assms
proof (induction pages arbitrary: s)
  case Nil
  then show ?case by simp
next
  case (Cons p ps)
  show ?case
  proof (cases "ps = []")
    case True
    with Cons.prems show ?thesis
      by (simp add: fetch_step_def Let_def)
  next
    case False
    with Cons.prems have p: "truthy (PaginationToken p)"
      and rest: "\<forall>p\<in>set (butlast ps). truthy (PaginationToken p)"
        "\<not> truthy (PaginationToken (last ps))"
      by auto
    from Cons.IH [OF False rest] p False show ?thesis
      by (simp add: fetch_step_def Let_def)
  qed
qed

text \<open>
  C2. When the calls return pages, every page but the last with a token and the last
  without one, the fetch returns the records of all pages in the order of arrival; the
  first call carries no token and each later call carries the token of the page before
  it; whatever a later call would return is not read. Three pages of two, two and one
  records with the tokens A, B and none give five records in order, and one empty page
  without a token gives the empty list.
\<close>

theorem fetch_pagination:
  assumes "pages \<noteq> []"
    and "\<forall>p\<in>set (butlast pages). truthy (PaginationToken p)"
    and "\<not> truthy (PaginationToken (last pages))"
  shows "fetch_resource_tags max_retries (map Parsed pages @ rest)
           = Some (Inr (concat (map page_records pages)))
     \<and> fetch_commands region max_retries (map Parsed pages @ rest)
           = command region None
             # map (\<lambda>p. command region (PaginationToken p)) (butlast pages)"
  using fetch_pages [OF assms, of max_retries
      "\<lparr>resources = [], next_token = None, retries = 0\<rparr>" rest region]
  by (simp add: fetch_resource_tags_def fetch_commands_def)

theorem fetch_pagination_witness:
  "fetch_resource_tags 3
     [Parsed \<lparr>ResourceTagMappingList =
                Some [\<lparr>ResourceARN = ''arn:x:svc:r1'', Tags = Some []\<rparr>,
                      \<lparr>ResourceARN = ''arn:x:svc:r2'', Tags = Some []\<rparr>],
              PaginationToken = Some ''A''\<rparr>,
      Parsed \<lparr>ResourceTagMappingList =
                Some [\<lparr>ResourceARN = ''arn:x:svc:r3'', Tags = Some []\<rparr>,
                      \<lparr>ResourceARN = ''arn:x:svc:r4'', Tags = Some []\<rparr>],
              PaginationToken = Some ''B''\<rparr>,
      Parsed \<lparr>ResourceTagMappingList = Some [\<lparr>ResourceARN = ''arn:x:svc:r5'', Tags = Some []\<rparr>],
              PaginationToken = None\<rparr>]
   = Some (Inr [\<lparr>ResourceARN = ''arn:x:svc:r1'', Tags = Some []\<rparr>,
                \<lparr>ResourceARN = ''arn:x:svc:r2'', Tags = Some []\<rparr>,
                \<lparr>ResourceARN = ''arn:x:svc:r3'', Tags = Some []\<rparr>,
                \<lparr>ResourceARN = ''arn:x:svc:r4'', Tags = Some []\<rparr>,
                \<lparr>ResourceARN = ''arn:x:svc:r5'', Tags = Some []\<rparr>])
   \<and> fetch_commands ''eu-central-1'' 3
     [Parsed \<lparr>ResourceTagMappingList =
                Some [\<lparr>ResourceARN = ''arn:x:svc:r1'', Tags = Some []\<rparr>,
                      \<lparr>ResourceARN = ''arn:x:svc:r2'', Tags = Some []\<rparr>],
              PaginationToken = Some ''A''\<rparr>,
      Parsed \<lparr>ResourceTagMappingList =
                Some [\<lparr>ResourceARN = ''arn:x:svc:r3'', Tags = Some []\<rparr>,
                      \<lparr>ResourceARN = ''arn:x:svc:r4'', Tags = Some []\<rparr>],
              PaginationToken = Some ''B''\<rparr>,
      Parsed \<lparr>ResourceTagMappingList = Some [\<lparr>ResourceARN = ''arn:x:svc:r5'', Tags = Some []\<rparr>],
              PaginationToken = None\<rparr>]
   = [[''aws'', ''resourcegroupstaggingapi'', ''get-resources'', ''--region'', ''eu-central-1'',
       ''--output'', ''json''],
      [''aws'', ''resourcegroupstaggingapi'', ''get-resources'', ''--region'', ''eu-central-1'',
       ''--output'', ''json'', ''--starting-token'', ''A''],
      [''aws'', ''resourcegroupstaggingapi'', ''get-resources'', ''--region'', ''eu-central-1'',
       ''--output'', ''json'', ''--starting-token'', ''B'']]
   \<and> fetch_resource_tags 3 [Parsed \<lparr>ResourceTagMappingList = Some ([] :: resource list), PaginationToken = None\<rparr>]
       = Some (Inr [])"
  using fetch_pagination
    [of "[\<lparr>ResourceTagMappingList =
             Some [\<lparr>ResourceARN = ''arn:x:svc:r1'', Tags = Some []\<rparr>,
                   \<lparr>ResourceARN = ''arn:x:svc:r2'', Tags = Some []\<rparr>],
           PaginationToken = Some ''A''\<rparr>,
          \<lparr>ResourceTagMappingList =
             Some [\<lparr>ResourceARN = ''arn:x:svc:r3'', Tags = Some []\<rparr>,
                   \<lparr>ResourceARN = ''arn:x:svc:r4'', Tags = Some []\<rparr>],
           PaginationToken = Some ''B''\<rparr>,
          \<lparr>ResourceTagMappingList = Some [\<lparr>ResourceARN = ''arn:x:svc:r5'', Tags = Some []\<rparr>],
           PaginationToken = None\<rparr>]"
        3 "[]" "''eu-central-1''"]
    fetch_pagination
    [of "[\<lparr>ResourceTagMappingList = Some ([] :: resource list), PaginationToken = None\<rparr>]" 3 "[]" "''eu-central-1''"]
  by (simp add: truthy_def page_records_def command_def)








text \<open>What the loop makes of a parsed body that is not an object, and of an object.\<close>

lemma of_body_shapes:
  "of_body JNull = NotObject" "of_body (JBool b) = NotObject" "of_body (JInt n) = NotObject"
  "of_body (JFloat nz) = NotObject" "of_body (JString t) = NotObject"
  "of_body (JArray xs) = NotObject" "of_body (JObject kvs) \<noteq> NotObject"
  by (simp_all add: of_body_def split: option.splits json.splits)





section \<open>Properties of the summaries\<close>

subsection \<open>Columns\<close>

lemma keys_column_append: "map fst (column_append c v d) = map fst d"
  by (induction d) (auto simp: column_append_def)

lemma map_of_column_append:
  "map_of (column_append c v d) c' =
     (if c' = c then map_option (\<lambda>vs. vs @ [v]) (map_of d c) else map_of d c')"
  by (induction d) (auto simp: column_append_def)

lemma column_column_append:
  "column (column_append c v d) c' =
     (if c' = c \<and> c \<in> fst ` set d then column d c' @ [v] else column d c')"
proof (cases "map_of d c")
  case None
  then have "c \<notin> fst ` set d"
    by (simp add: map_of_eq_None_iff)
  with None show ?thesis
    by (simp add: column_def map_of_column_append)
next
  case (Some vs)
  then have "c \<in> fst ` set d"
    by (metis map_of_eq_None_iff option.distinct(1))
  with Some show ?thesis
    by (simp add: column_def map_of_column_append)
qed

text \<open>Appending one cell to each of several columns, one after the other.\<close>

lemma keys_append_cells: "map fst (fold (\<lambda>(c, v) d. column_append c v d) cells d) = map fst d"
  by (induction cells arbitrary: d) (auto simp: keys_column_append)

lemma column_append_cells:
  "column (fold (\<lambda>(c, v) d. column_append c v d) cells d) c' =
     (if c' \<in> fst ` set d then column d c' @ map snd (filter (\<lambda>(c, v). c = c') cells)
      else column d c')"
proof (induction cells arbitrary: d)
  case Nil
  show ?case by simp
next
  case (Cons cv cells)
  obtain c v where cv: "cv = (c, v)" by (cases cv)
  have keys: "fst ` set (column_append c v d) = fst ` set d"
    using keys_column_append [of c v d] by (metis set_map)
  show ?case
    unfolding cv by (simp add: Cons.IH keys column_column_append)
qed

lemma keys_fold_rows:
  "map fst (fold (\<lambda>x d. fold (\<lambda>(c, v) d. column_append c v d) (cells x) d) xs d) = map fst d"
  by (induction xs arbitrary: d) (auto simp: keys_append_cells)

lemma column_fold_rows:
  "column (fold (\<lambda>x d. fold (\<lambda>(c, v) d. column_append c v d) (cells x) d) xs d) c' =
     (if c' \<in> fst ` set d
      then column d c' @ concat (map (\<lambda>x. map snd (filter (\<lambda>(c, v). c = c') (cells x))) xs)
      else column d c')"
proof (induction xs arbitrary: d)
  case Nil
  show ?case by simp
next
  case (Cons x xs)
  have keys: "fst ` set (fold (\<lambda>(c, v) d. column_append c v d) (cells x) d) = fst ` set d"
    using keys_append_cells [of "cells x" d] by (metis set_map)
  show ?case
    by (simp add: Cons.IH keys column_append_cells)
qed

subsection \<open>Focused coverage summary\<close>

lemma has_focused_tag_iff: "has_focused_tag f ts \<longleftrightarrow> (\<exists>t\<in>set ts. focus_match f t)"
  by (induction ts) auto

lemma count_loop_eq:
  "count_loop f (a, b) rs =
     (a + length (filter (\<lambda>r. has_focused_tag f (get_tags r)) rs),
      b + length (filter (\<lambda>r. \<not> has_focused_tag f (get_tags r)) rs))"
  by (induction rs arbitrary: a b) auto

lemma count_loop_total:
  "count_loop f (0, 0) rs = (a, b) \<Longrightarrow> a + b = length rs"
  using sum_length_filter_compl [of "\<lambda>r. has_focused_tag f (get_tags r)" rs]
  by (simp add: count_loop_eq)

lemma focused_step_cells:
  "focused_step f =
     (\<lambda>item d. fold (\<lambda>(c, v) d. column_append c v d)
        [(''Environment'', Str (fst item)),
         (''Focused Tag Key'', Joined (set (include_keys f))),
         (''Focused Tag Value'', Joined (set (include_values f))),
         (''Excluded Tag Key'', Joined (set (exclude_keys f))),
         (''Excluded Tag Value'', Joined (set (exclude_values f))),
         (''Total Resources'', Num (length (snd item))),
         (''Resources with Focused Tags'', Num (fst (count_loop f (0, 0) (snd item)))),
         (''Resources Missing Focused Tags'', Num (snd (count_loop f (0, 0) (snd item))))]
        d)"
  by (intro ext) (simp add: focused_step_def Let_def split: prod.splits)

lemma focused_summary_columns:
  "column (generate_focused_summary_csv tag_data f) ''Environment''
     = map (\<lambda>item. Str (fst item)) tag_data"
  "column (generate_focused_summary_csv tag_data f) ''Total Resources''
     = map (\<lambda>item. Num (length (snd item))) tag_data"
  "column (generate_focused_summary_csv tag_data f) ''Resources with Focused Tags''
     = map (\<lambda>item. Num (fst (count_loop f (0, 0) (snd item)))) tag_data"
  "column (generate_focused_summary_csv tag_data f) ''Resources Missing Focused Tags''
     = map (\<lambda>item. Num (snd (count_loop f (0, 0) (snd item)))) tag_data"
  unfolding generate_focused_summary_csv_def focused_step_cells column_fold_rows
  by (simp_all add: focused_columns_def column_def)

subsection \<open>Presence and value summary\<close>

lemma keys_dict_update:
  "map fst (dict_update k dflt f kvs) =
     (if k \<in> fst ` set kvs then map fst kvs else map fst kvs @ [k])"
  by (induction kvs) force+

lemma distinct_dict_update:
  "distinct (map fst kvs) \<Longrightarrow> distinct (map fst (dict_update k dflt f kvs))"
  by (simp add: keys_dict_update)

lemma map_of_dict_update:
  "map_of (dict_update k dflt f kvs) k' =
     (if k' = k then Some (f (case map_of kvs k of None \<Rightarrow> dflt | Some v \<Rightarrow> v))
      else map_of kvs k')"
  by (induction kvs) auto

lemma holds_add:
  assumes "holds A R"
  shows "holds (dict_update k [] (dict_update e {} g) A) (insert (k, e) R)"
proof -
  let ?A = "dict_update k [] (dict_update e {} g) A"
  from assms have dist: "distinct (map fst A)" and keys: "fst ` set A = fst ` R"
    and envs: "\<And>k. envs_of A k = {e. (k, e) \<in> R}"
    by (auto simp: holds_def)
  have "distinct (map fst ?A)"
    using dist by (rule distinct_dict_update)
  moreover have "fst ` set ?A = fst ` insert (k, e) R"
  proof -
    have "fst ` set ?A = set (map fst ?A)" by simp
    also have "\<dots> = insert k (fst ` set A)"
      unfolding keys_dict_update by auto
    finally show ?thesis using keys by simp
  qed
  moreover have "envs_of ?A k' = {e'. (k', e') \<in> insert (k, e) R}" for k'
  proof (cases "k' = k")
    case False
    then show ?thesis
      using envs [of k'] by (simp add: envs_of_def map_of_dict_update)
  next
    case True
    have inner: "fst ` set (dict_update e {} g es) = insert e (fst ` set es)" for es
    proof -
      have "fst ` set (dict_update e {} g es) = set (map fst (dict_update e {} g es))" by simp
      also have "\<dots> = insert e (fst ` set es)"
        unfolding keys_dict_update by auto
      finally show ?thesis .
    qed
    have "envs_of ?A k = insert e (envs_of A k)"
      by (simp add: envs_of_def map_of_dict_update inner split: option.splits)
    then show ?thesis
      using envs [of k] True by auto
  qed
  ultimately show ?thesis
    by (simp add: holds_def)
qed

lemma holds_tags:
  "holds A R \<Longrightarrow>
   holds (fold (\<lambda>tag A. dict_update (Key tag) [] (dict_update e {} (insert (Value tag))) A) ts A)
     (R \<union> (\<lambda>t. (Key t, e)) ` set ts)"
proof (induction ts arbitrary: A R)
  case Nil
  then show ?case by simp
next
  case (Cons t ts)
  have "R \<union> (\<lambda>t. (Key t, e)) ` set (t # ts) = insert (Key t, e) R \<union> (\<lambda>t. (Key t, e)) ` set ts"
    by auto
  then show ?case
    using Cons.IH [OF holds_add [OF Cons.prems, of "Key t" e "insert (Value t)"]] by simp
qed

lemma holds_resources:
  "holds A R \<Longrightarrow>
   holds (fold (\<lambda>resource A.
            fold (\<lambda>tag A. dict_update (Key tag) [] (dict_update e {} (insert (Value tag))) A)
              (get_tags resource) A) rs A)
     (R \<union> (\<Union>r\<in>set rs. (\<lambda>t. (Key t, e)) ` set (get_tags r)))"
proof (induction rs arbitrary: A R)
  case Nil
  then show ?case by simp
next
  case (Cons r rs)
  have "R \<union> (\<Union>r\<in>set (r # rs). (\<lambda>t. (Key t, e)) ` set (get_tags r))
      = (R \<union> (\<lambda>t. (Key t, e)) ` set (get_tags r))
        \<union> (\<Union>r\<in>set rs. (\<lambda>t. (Key t, e)) ` set (get_tags r))"
    by auto
  then show ?case
    using Cons.IH [OF holds_tags [OF Cons.prems, of e "get_tags r"]] by simp
qed

lemma holds_environments:
  "holds A R \<Longrightarrow>
   holds (fold (\<lambda>(env, tags) all_tags.
            fold (\<lambda>resource all_tags.
               fold (\<lambda>tag all_tags.
                  dict_update (Key tag) [] (dict_update env {} (insert (Value tag))) all_tags)
                 (get_tags resource) all_tags)
              tags all_tags) td A)
     (R \<union> (\<Union>(e, rs)\<in>set td. \<Union>r\<in>set rs. (\<lambda>t. (Key t, e)) ` set (get_tags r)))"
proof (induction td arbitrary: A R)
  case Nil
  then show ?case by simp
next
  case (Cons item td)
  obtain e rs where item: "item = (e, rs)" by (cases item)
  have "R \<union> (\<Union>(e, rs)\<in>set (item # td). \<Union>r\<in>set rs. (\<lambda>t. (Key t, e)) ` set (get_tags r))
      = (R \<union> (\<Union>r\<in>set rs. (\<lambda>t. (Key t, e)) ` set (get_tags r)))
        \<union> (\<Union>(e, rs)\<in>set td. \<Union>r\<in>set rs. (\<lambda>t. (Key t, e)) ` set (get_tags r))"
    unfolding item by auto
  then show ?case
    using Cons.IH [OF holds_resources [OF Cons.prems, of e rs]] by (simp add: item)
qed

lemma holds_collect_tags:
  "holds (collect_tags td)
     (\<Union>(e, rs)\<in>set td. \<Union>r\<in>set rs. (\<lambda>t. (Key t, e)) ` set (get_tags r))"
proof -
  have "holds [] {}"
    by (simp add: holds_def envs_of_def)
  from holds_environments [OF this, of td] show ?thesis
    by (simp add: collect_tags_def)
qed

lemma summary_step_cells:
  "summary_step env_names =
     (\<lambda>item d. fold (\<lambda>(c, v) d. column_append c v d)
        ([(''Tag Key'', Str (fst item))]
         @ map (\<lambda>env. (env, Str (if env \<in> set (map fst (snd item)) then ''yes'' else ''no'')))
             env_names
         @ [(''Possible Values'', Vals (\<Union> (set (map snd (snd item)))))])
        d)"
  by (intro ext) (simp add: summary_step_def Let_def fold_map comp_def split: prod.splits)

lemma dict_update_empty_columns:
  "\<forall>kv\<in>set d. snd kv = [] \<Longrightarrow> \<forall>kv\<in>set (dict_update c [] (\<lambda>_. []) d). snd kv = []"
  by (induction d) (fastforce split: if_splits)+

lemma summary_columns_fold:
  "\<forall>kv\<in>set d. snd kv = [] \<Longrightarrow>
   (\<forall>kv\<in>set (fold (\<lambda>c d. dict_update c [] (\<lambda>_. []) d) cs d). snd kv = [])
   \<and> fst ` set (fold (\<lambda>c d. dict_update c [] (\<lambda>_. []) d) cs d) = fst ` set d \<union> set cs"
proof (induction cs arbitrary: d)
  case Nil
  then show ?case by simp
next
  case (Cons c cs)
  have keys: "fst ` set (dict_update c [] (\<lambda>_. []) d) = insert c (fst ` set d)"
  proof -
    have "fst ` set (dict_update c [] (\<lambda>_. []) d) = set (map fst (dict_update c [] (\<lambda>_. []) d))"
      by simp
    also have "\<dots> = insert c (fst ` set d)"
      unfolding keys_dict_update by auto
    finally show ?thesis .
  qed
  from Cons.IH [OF dict_update_empty_columns [OF Cons.prems, of c]] keys
  show ?case by auto
qed

lemma summary_columns_props:
  "(\<forall>kv\<in>set (summary_columns envs). snd kv = [])
   \<and> fst ` set (summary_columns envs) = insert ''Tag Key'' (insert ''Possible Values'' (set envs))"
proof -
  define T0 where "T0 = summary_columns envs"
  have "\<forall>kv\<in>set ([] :: table). snd kv = []"
    by simp
  from summary_columns_fold [OF this, of "[''Tag Key''] @ envs @ [''Possible Values'']"]
  have "(\<forall>kv\<in>set T0. snd kv = [])
      \<and> fst ` set T0 = fst ` set ([] :: table) \<union> set ([''Tag Key''] @ envs @ [''Possible Values''])"
    unfolding T0_def summary_columns_def .
  then show ?thesis
    unfolding T0_def [symmetric] by auto
qed

lemma summary_columns_keys:
  "fst ` set (summary_columns envs) = insert ''Tag Key'' (insert ''Possible Values'' (set envs))"
  using summary_columns_props [of envs] by blast

lemma summary_columns_empty: "column (summary_columns envs) c = []"
proof (cases "map_of (summary_columns envs) c")
  case None
  then show ?thesis by (simp add: column_def)
next
  case (Some vs)
  then have "(c, vs) \<in> set (summary_columns envs)"
    by (rule map_of_SomeD)
  with summary_columns_props [of envs] have "vs = []"
    by fastforce
  with Some show ?thesis by (simp add: column_def)
qed

lemma filter_env_cell:
  "distinct envs \<Longrightarrow> e \<in> set envs \<Longrightarrow>
   filter (\<lambda>(c, v). c = e) (map (\<lambda>env. (env, g env)) envs) = [(e, g e)]"
proof (induction envs)
  case Nil
  then show ?case by simp
next
  case (Cons x envs)
  have none: "filter (\<lambda>(c, v). c = e) (map (\<lambda>env. (env, g env)) envs) = []" if "e \<notin> set envs"
    using that by (induction envs) auto
  show ?case
  proof (cases "x = e")
    case True
    with Cons.prems have "e \<notin> set envs" by simp
    with True show ?thesis by (simp add: none)
  next
    case False
    with Cons show ?thesis by simp
  qed
qed

lemma filter_no_env_cell:
  "c' \<notin> set envs \<Longrightarrow> filter (\<lambda>(c, v). c = c') (map (\<lambda>env. (env, g env)) envs) = []"
  by (induction envs) auto

lemma summary_cells_tag_key:
  "''Tag Key'' \<notin> set env_names \<Longrightarrow>
   map snd (filter (\<lambda>(c, v). c = ''Tag Key'')
     ([(''Tag Key'', a)] @ map (\<lambda>env. (env, g env)) env_names @ [(''Possible Values'', b)])) = [a]"
  by (simp add: filter_no_env_cell)

lemma summary_cells_env:
  "distinct env_names \<Longrightarrow> e \<in> set env_names \<Longrightarrow> e \<noteq> ''Tag Key'' \<Longrightarrow> e \<noteq> ''Possible Values'' \<Longrightarrow>
   map snd (filter (\<lambda>(c, v). c = e)
     ([(''Tag Key'', a)] @ map (\<lambda>env. (env, g env)) env_names @ [(''Possible Values'', b)])) = [g e]"
  by (simp add: filter_env_cell)

lemma summary_tag_key_column:
  assumes "''Tag Key'' \<notin> fst ` set tag_data"
  shows "column (generate_summary_csv tag_data) ''Tag Key''
     = map (\<lambda>item. Str (fst item)) (collect_tags tag_data)"
proof -
  have no: "''Tag Key'' \<notin> set (map fst tag_data)"
    using assms by simp
  show ?thesis
    unfolding generate_summary_csv_def Let_def summary_step_cells column_fold_rows
      summary_cells_tag_key [OF no]
    by (simp add: summary_columns_keys summary_columns_empty)
qed

lemma summary_env_column:
  assumes "distinct (map fst tag_data)" and "e \<in> fst ` set tag_data"
    and "e \<noteq> ''Tag Key''" and "e \<noteq> ''Possible Values''"
  shows "column (generate_summary_csv tag_data) e
     = map (\<lambda>item. Str (if e \<in> set (map fst (snd item)) then ''yes'' else ''no''))
         (collect_tags tag_data)"
proof -
  have e: "e \<in> set (map fst tag_data)"
    using assms(2) by simp
  show ?thesis
    unfolding generate_summary_csv_def Let_def summary_step_cells column_fold_rows
      summary_cells_env [OF assms(1) e assms(3,4)]
    using e by (simp add: summary_columns_keys summary_columns_empty)
qed

text \<open>
  The presence summary on environments whose names are not the titles of the two fixed
  columns: a tag key that a resource of an environment carries stands in exactly one
  place of the column \<open>Tag Key\<close>, the column of the environment is as long as that
  column, and it says \<open>yes\<close> in that place.
\<close>

lemma summary_presence:
  assumes "distinct (map fst tag_data)"
    and "''Tag Key'' \<notin> fst ` set tag_data" and "''Possible Values'' \<notin> fst ` set tag_data"
    and "(e, rs) \<in> set tag_data" and "r \<in> set rs" and "t \<in> set (get_tags r)"
  shows "\<exists>i. i < length (column (generate_summary_csv tag_data) ''Tag Key'')
     \<and> column (generate_summary_csv tag_data) ''Tag Key'' ! i = Str (Key t)
     \<and> (\<forall>j<length (column (generate_summary_csv tag_data) ''Tag Key'').
           column (generate_summary_csv tag_data) ''Tag Key'' ! j = Str (Key t) \<longrightarrow> j = i)
     \<and> length (column (generate_summary_csv tag_data) e)
         = length (column (generate_summary_csv tag_data) ''Tag Key'')
     \<and> column (generate_summary_csv tag_data) e ! i = Str ''yes''"
proof -
  let ?A = "collect_tags tag_data"
  let ?R = "\<Union>(e, rs)\<in>set tag_data. \<Union>r\<in>set rs. (\<lambda>t. (Key t, e)) ` set (get_tags r)"
  from holds_collect_tags [of tag_data]
  have dist: "distinct (map fst ?A)" and keys: "fst ` set ?A = fst ` ?R"
    and envs: "envs_of ?A (Key t) = {e. (Key t, e) \<in> ?R}"
    by (auto simp: holds_def)
  from assms(4-6) have inR: "(Key t, e) \<in> ?R"
    by force
  then have "Key t \<in> fst ` set ?A"
    unfolding keys by force
  then obtain i where i: "i < length ?A" "fst (?A ! i) = Key t"
    by (auto simp: in_set_conv_nth)
  have unique: "j = i" if "j < length ?A" "fst (?A ! j) = Key t" for j
  proof -
    from i that have eq: "map fst ?A ! j = map fst ?A ! i"
      by simp
    show ?thesis
      by (metis dist eq i(1) that(1) length_map nth_eq_iff_index_eq)
  qed
  have "(Key t, snd (?A ! i)) \<in> set ?A"
    using i by (metis nth_mem prod.collapse)
  with dist have "map_of ?A (Key t) = Some (snd (?A ! i))"
    by simp
  with envs inR have yes: "e \<in> set (map fst (snd (?A ! i)))"
    by (auto simp: envs_of_def)
  from assms(2-4) have e: "e \<in> fst ` set tag_data" "e \<noteq> ''Tag Key''" "e \<noteq> ''Possible Values''"
    by force+
  note tk = summary_tag_key_column [OF assms(2)]
  note ec = summary_env_column [OF assms(1) e]
  have len: "length (column (generate_summary_csv tag_data) ''Tag Key'') = length ?A"
    "length (column (generate_summary_csv tag_data) e) = length ?A"
    unfolding tk ec by simp_all
  have at: "column (generate_summary_csv tag_data) ''Tag Key'' ! j = Str (fst (?A ! j))"
    if "j < length ?A" for j
    unfolding tk using that by simp
  have marked: "column (generate_summary_csv tag_data) e ! i = Str ''yes''"
    unfolding ec using i(1) yes by simp
  have only: "\<forall>j<length (column (generate_summary_csv tag_data) ''Tag Key'').
      column (generate_summary_csv tag_data) ''Tag Key'' ! j = Str (Key t) \<longrightarrow> j = i"
  proof (intro allI impI)
    fix j
    assume j: "j < length (column (generate_summary_csv tag_data) ''Tag Key'')"
      and "column (generate_summary_csv tag_data) ''Tag Key'' ! j = Str (Key t)"
    then have "fst (?A ! j) = Key t"
      using at [of j] len(1) by simp
    with j len(1) show "j = i"
      by (intro unique) simp_all
  qed
  have here: "i < length (column (generate_summary_csv tag_data) ''Tag Key'')"
    "column (generate_summary_csv tag_data) ''Tag Key'' ! i = Str (Key t)"
    using i at [of i] len(1) by simp_all
  have same: "length (column (generate_summary_csv tag_data) e)
      = length (column (generate_summary_csv tag_data) ''Tag Key'')"
    using len by simp
  from here only same marked show ?thesis
    by blast
qed

text \<open>
  The focused coverage summary has one place in every column for each environment, in the
  order of the input: there the two counts add up to the number of resources of the
  environment, and the first count is the number of its resources with a tag that passes
  the test.
\<close>

lemma focused_summary_reconciles:
  assumes "i < length tag_data"
  shows "\<exists>a b. column (generate_focused_summary_csv tag_data f) ''Environment'' ! i
                  = Str (fst (tag_data ! i))
     \<and> column (generate_focused_summary_csv tag_data f) ''Total Resources'' ! i
         = Num (length (snd (tag_data ! i)))
     \<and> column (generate_focused_summary_csv tag_data f) ''Resources with Focused Tags'' ! i = Num a
     \<and> column (generate_focused_summary_csv tag_data f) ''Resources Missing Focused Tags'' ! i = Num b
     \<and> a + b = length (snd (tag_data ! i))
     \<and> a = length (filter (\<lambda>r. \<exists>t\<in>set (get_tags r). focus_match f t) (snd (tag_data ! i)))"
proof -
  let ?rs = "snd (tag_data ! i)"
  obtain a b where ab: "count_loop f (0, 0) ?rs = (a, b)"
    by (cases "count_loop f (0, 0) ?rs")
  from count_loop_total [OF ab] have total: "a + b = length ?rs" .
  from ab have a: "a = length (filter (\<lambda>r. \<exists>t\<in>set (get_tags r). focus_match f t) ?rs)"
    by (simp add: count_loop_eq has_focused_tag_iff)
  show ?thesis
    unfolding focused_summary_columns using assms ab total a by simp
qed

lemma summary_presence_example:
  "generate_summary_csv
     [(''dev'', [\<lparr>ResourceARN = ''arn:x:svc:r1'', Tags = Some [\<lparr>Key = ''Team'', Value = ''core''\<rparr>]\<rparr>]),
      (''prod'', [\<lparr>ResourceARN = ''arn:x:svc:r2'',
                   Tags = Some [\<lparr>Key = ''Team'', Value = ''core''\<rparr>, \<lparr>Key = ''Env'', Value = ''prod''\<rparr>]\<rparr>])]
   = [(''Tag Key'', [Str ''Team'', Str ''Env'']),
      (''dev'', [Str ''yes'', Str ''no'']),
      (''prod'', [Str ''yes'', Str ''yes'']),
      (''Possible Values'', [Vals {''core''}, Vals {''prod''}])]"
proof -
  have collected: "collect_tags
     [(''dev'', [\<lparr>ResourceARN = ''arn:x:svc:r1'', Tags = Some [\<lparr>Key = ''Team'', Value = ''core''\<rparr>]\<rparr>]),
      (''prod'', [\<lparr>ResourceARN = ''arn:x:svc:r2'',
                   Tags = Some [\<lparr>Key = ''Team'', Value = ''core''\<rparr>, \<lparr>Key = ''Env'', Value = ''prod''\<rparr>]\<rparr>])]
     = [(''Team'', [(''dev'', {''core''}), (''prod'', {''core''})]), (''Env'', [(''prod'', {''prod''})])]"
    by (simp add: collect_tags_def get_tags_def)
  have columns: "summary_columns [''dev'', ''prod'']
     = [(''Tag Key'', []), (''dev'', []), (''prod'', []), (''Possible Values'', [])]"
    by (simp add: summary_columns_def)
  show ?thesis
    unfolding generate_summary_csv_def Let_def
    apply (simp only: list.map fst_conv collected columns)
    apply (simp add: summary_step_def column_append_def Let_def)
    done
qed

text \<open>
  C8. An environment that is named like one of the two fixed columns shares its column
  with it: the tag key and the mark of the environment land in the same column, so no
  place of the table pairs the key \<open>Team\<close> with \<open>yes\<close> for the environment
  \<open>Tag Key\<close>. With both names taken by environments the columns have the same length
  all the same; with one of them the columns differ in length.
\<close>

theorem summary_environment_named_like_a_column:
  "generate_summary_csv
     [(''Tag Key'', [\<lparr>ResourceARN = ''arn:x:svc:r1'', Tags = Some [\<lparr>Key = ''Team'', Value = ''core''\<rparr>]\<rparr>]),
      (''Possible Values'', [])]
   = [(''Tag Key'', [Str ''Team'', Str ''yes'']),
      (''Possible Values'', [Str ''no'', Vals {''core''}])]
   \<and> generate_summary_csv
     [(''Tag Key'', [\<lparr>ResourceARN = ''arn:x:svc:r1'', Tags = Some [\<lparr>Key = ''Team'', Value = ''core''\<rparr>]\<rparr>])]
   = [(''Tag Key'', [Str ''Team'', Str ''yes'']), (''Possible Values'', [Vals {''core''}])]"
proof -
  have collected: "collect_tags
     [(''Tag Key'', [\<lparr>ResourceARN = ''arn:x:svc:r1'', Tags = Some [\<lparr>Key = ''Team'', Value = ''core''\<rparr>]\<rparr>]),
      (''Possible Values'', [])] = [(''Team'', [(''Tag Key'', {''core''})])]"
    "collect_tags
     [(''Tag Key'', [\<lparr>ResourceARN = ''arn:x:svc:r1'', Tags = Some [\<lparr>Key = ''Team'', Value = ''core''\<rparr>]\<rparr>])]
     = [(''Team'', [(''Tag Key'', {''core''})])]"
    by (simp_all add: collect_tags_def get_tags_def)
  have columns: "summary_columns [''Tag Key'', ''Possible Values'']
     = [(''Tag Key'', []), (''Possible Values'', [])]"
    "summary_columns [''Tag Key''] = [(''Tag Key'', []), (''Possible Values'', [])]"
    by (simp_all add: summary_columns_def)
  show ?thesis
    unfolding generate_summary_csv_def Let_def
    apply (simp only: list.map fst_conv collected columns)
    apply (simp add: summary_step_def column_append_def Let_def)
    done
qed

end
